theory Spec2Isabelle
  imports Main
begin

section \<open>Data model of the game server\<close>

text \<open>
  The server (\<^verbatim>\<open>src/index.js\<close> and its variant \<^verbatim>\<open>src/unnamed/part_000\<close>) is a single
  threaded event loop over three module-level variables: the roster \<^verbatim>\<open>players\<close>
  (an object keyed by socket id, iterated in insertion order), \<^verbatim>\<open>gameState\<close> and
  \<^verbatim>\<open>timerInterval\<close> (plus \<^verbatim>\<open>hostId\<close> in \<^verbatim>\<open>index.js\<close>). Every handler runs to
  completion; the only suspension point is the \<^verbatim>\<open>await\<close> of the scoring request in
  \<^verbatim>\<open>evaluateRound\<close>. The model is a state record and one function per handler; the
  suspended half of \<^verbatim>\<open>evaluateRound\<close> is kept in the state as a pending evaluation and
  resumed by its own event.
\<close>

type_synonym sid = string

datatype status = Lobby | Playing | Finished

text \<open>A player object. The source's field \<^verbatim>\<open>id\<close> is \<open>pid\<close> here.\<close>

record player =
  pid :: sid
  name :: string
  color :: string
  score :: int
  submitted :: bool
  lastGuess :: "string option"

text \<open>A chain node \<^verbatim>\<open>{ word, playerId }\<close>; the seed has \<^verbatim>\<open>playerId: null\<close>.\<close>

record node =
  word :: "string option"
  playerId :: "sid option"

text \<open>
  An element of the local array \<^verbatim>\<open>guesses\<close>: \<^verbatim>\<open>{ groupId: p.id, word: p.lastGuess }\<close>,
  with \<^verbatim>\<open>score\<close> undefined (\<open>None\<close>) until the oracle's answer assigns it.
\<close>

record guess =
  groupId :: sid
  gword :: "string option"
  gscore :: "int option"

text \<open>
  The object \<^verbatim>\<open>gameState\<close>. In the lobby it is \<^verbatim>\<open>{ status: 'lobby' }\<close>: the other
  fields are undefined, which every test of the source reads as false; they are \<open>False\<close>,
  \<open>[]\<close>, \<open>0\<close> and \<open>None\<close> here. Its fields \<^verbatim>\<open>players\<close> and \<^verbatim>\<open>hostId\<close> are copies
  made for the broadcast and read by no server code; they are left out.
\<close>

record game_state =
  status :: status
  chain :: "node list"
  turn :: nat
  maxTurns :: nat
  isRoundActive :: bool
  isEvaluating :: bool
  timeLeft :: "nat option"

text \<open>The payload of a \<^verbatim>\<open>roundResult\<close> broadcast.\<close>

datatype round_msg =
    NoGuesses
  | OracleError
  | Summary nat guess string "(string \<times> guess \<times> int) list" node

text \<open>
  What the server sends: the \<^verbatim>\<open>io.emit\<close> broadcasts, \<^verbatim>\<open>socket.disconnect()\<close> and the
  request to the scoring oracle (its user prompt).
\<close>

datatype effect =
    Timer nat
  | GameStateMsg game_state
  | RoundResult round_msg
  | GameOver "player list" "sid option"
  | LobbyState "player list" "sid option"
  | SocketDisconnect sid
  | OracleRequest string

text \<open>
  An invocation of \<^verbatim>\<open>evaluateRound\<close> suspended at its \<^verbatim>\<open>await\<close>: the locals
  \<^verbatim>\<open>lastTermInChain\<close> and \<^verbatim>\<open>guesses\<close> it will resume with.
\<close>

record pending_eval =
  target :: "string option"
  guesses :: "guess list"

text \<open>
  The whole server. \<open>timerInterval\<close> says whether an interval is scheduled: every
  \<^verbatim>\<open>setInterval\<close> is preceded by \<^verbatim>\<open>clearInterval\<close> of the previous handle, so there is
  at most one. \<open>out\<close> is the log of effects, oldest first.
\<close>

record server =
  players :: "player list"
  hostId :: "sid option"
  gameState :: game_state
  timerInterval :: bool
  pending :: "pending_eval list"
  out :: "effect list"

text \<open>The two source files differ in the host role and in the guard of \<^verbatim>\<open>startGame\<close>.\<close>

datatype variant = Index_js | Part_000

text \<open>
  What the awaited oracle call settles to. \<open>OracleThrows\<close> stands for every way the
  statements from the request to the end of \<^verbatim>\<open>results.forEach\<close> can throw on the oracle's
  account: the request rejects, \<^verbatim>\<open>JSON.parse\<close> fails, \<^verbatim>\<open>choices[0]\<close> is missing,
  \<^verbatim>\<open>results\<close> is not an array or an entry has no string \<^verbatim>\<open>word\<close>. \<open>OracleResults rs\<close>
  is a parsed answer whose entries have a string \<^verbatim>\<open>word\<close> and an integer or missing
  \<^verbatim>\<open>score\<close> (a missing \<^verbatim>\<open>results\<close> key is \<open>[]\<close>).
\<close>

datatype oracle_reply = OracleThrows | OracleResults "(string \<times> int option) list"

text \<open>
  The events of the event loop. A natural number stands for a draw of \<^verbatim>\<open>Math.random()\<close>:
  \<^verbatim>\<open>Math.floor(Math.random() * n)\<close> is any index below \<open>n\<close>, here \<open>r mod n\<close>.
\<close>

datatype event =
    Connection sid string
  | StartGame sid nat
  | SubmitGuess sid string
  | Disconnect sid
  | Tick
  | OracleReturns oracle_reply nat

section \<open>Constants and helpers\<close>

definition TURN_DURATION :: nat where
  "TURN_DURATION = 30"

definition MAX_TURNS :: nat where
  "MAX_TURNS = 10"

definition colors :: "string list" where
  "colors = [''#E53935'', ''#1E88E5'', ''#43A047'', ''#FDD835'',
             ''#8E24AA'', ''#D81B60'', ''#F4511E'', ''#3949AB'']"

definition seedWords :: "string list" where
  "seedWords = [''Futuro'', ''Natureza'', ''Arte'', ''Sociedade'', ''Conhecimento'',
                ''Justi'' @ [CHR 0xC3, CHR 0xA7] @ ''a'']"

text \<open>
  \<^verbatim>\<open>String.prototype.toLowerCase\<close> and \<^verbatim>\<open>toUpperCase\<close> are built-ins of the JavaScript
  runtime, not code of the server: their Unicode case tables are not modelled. The model
  takes them as a parameter \<open>js\<close> and every general statement holds for any two
  functions on strings, those of the runtime included.
\<close>

record runtime =
  toLowerCase :: "string \<Rightarrow> string"
  toUpperCase :: "string \<Rightarrow> string"

text \<open>
  The case mappings on the ASCII letters, other bytes left as they are. On words of ASCII
  characters they are what the built-ins compute; the examples use such words only and
  are run with them.
\<close>

definition lowerChar :: "char \<Rightarrow> char" where
  "lowerChar c = (let n = (of_char c :: nat) in if 65 \<le> n \<and> n \<le> 90 then char_of (n + 32) else c)"

definition upperChar :: "char \<Rightarrow> char" where
  "upperChar c = (let n = (of_char c :: nat) in if 97 \<le> n \<and> n \<le> 122 then char_of (n - 32) else c)"

definition ascii :: runtime where
  "ascii = \<lparr>toLowerCase = map lowerChar, toUpperCase = map upperChar\<rparr>"

text \<open>\<^verbatim>\<open>players[k]\<close>, \<^verbatim>\<open>players[k] = p\<close> and \<^verbatim>\<open>delete players[k]\<close> on the ordered object.\<close>

fun lookup :: "player list \<Rightarrow> sid \<Rightarrow> player option" where
  "lookup [] k = None"
| "lookup (p # ps) k = (if pid p = k then Some p else lookup ps k)"

fun assign :: "player list \<Rightarrow> sid \<Rightarrow> player \<Rightarrow> player list" where
  "assign [] k q = [q]"
| "assign (p # ps) k q = (if pid p = k then q # ps else p # assign ps k q)"

definition delete :: "player list \<Rightarrow> sid \<Rightarrow> player list" where
  "delete ps k = filter (\<lambda>p. pid p \<noteq> k) ps"

text \<open>A mutation of the player object stored under a key.\<close>

fun modify :: "sid \<Rightarrow> (player \<Rightarrow> player) \<Rightarrow> player list \<Rightarrow> player list" where
  "modify k f [] = []"
| "modify k f (p # ps) = (if pid p = k then f p # ps else p # modify k f ps)"

definition emit :: "effect \<Rightarrow> server \<Rightarrow> server" where
  "emit e s = s\<lparr>out := out s @ [e]\<rparr>"

definition init :: server where
  "init = \<lparr>players = [], hostId = None,
           gameState = \<lparr>status = Lobby, chain = [], turn = 0, maxTurns = 0,
                        isRoundActive = False, isEvaluating = False, timeLeft = None\<rparr>,
           timerInterval = False, pending = [], out = []\<rparr>"

section \<open>The functions of the game logic\<close>

definition clearRound :: "player \<Rightarrow> player" where
  "clearRound p = p\<lparr>submitted := False, lastGuess := None\<rparr>"

definition resetGame :: "nat \<Rightarrow> server \<Rightarrow> server" where
  "resetGame r s =
     s\<lparr>players := map (\<lambda>p. p\<lparr>score := 0, submitted := False, lastGuess := None\<rparr>) (players s),
       gameState := \<lparr>status = Playing,
                     chain = [\<lparr>word = Some (seedWords ! (r mod length seedWords)), playerId = None\<rparr>],
                     turn = 1, maxTurns = MAX_TURNS,
                     isRoundActive = True, isEvaluating = False, timeLeft = None\<rparr>\<rparr>"

definition startTurnTimer :: "server \<Rightarrow> server" where
  "startTurnTimer s =
     (emit (Timer TURN_DURATION) (s\<lparr>gameState := (gameState s)\<lparr>timeLeft := Some TURN_DURATION\<rparr>\<rparr>))
       \<lparr>timerInterval := True\<rparr>"

definition startNextTurn :: "server \<Rightarrow> server" where
  "startNextTurn s =
     (if turn (gameState s) \<ge> MAX_TURNS
      then emit (GameOver (players s) (hostId s))
             (s\<lparr>gameState := (gameState s)\<lparr>status := Finished\<rparr>\<rparr>)
      else
        let s1 = s\<lparr>gameState := (gameState s)\<lparr>turn := turn (gameState s) + 1,
                                               isRoundActive := True, isEvaluating := False\<rparr>,
                   players := map clearRound (players s)\<rparr>
        in startTurnTimer (emit (GameStateMsg (gameState s1)) s1))"

text \<open>
  The user prompt of the request, as the template literal builds it; a null word is
  rendered \<^verbatim>\<open>null\<close>.
\<close>

definition showWord :: "string option \<Rightarrow> string" where
  "showWord w = (case w of None \<Rightarrow> ''null'' | Some x \<Rightarrow> x)"

fun join :: "string \<Rightarrow> string list \<Rightarrow> string" where
  "join sep [] = []"
| "join sep [x] = x"
| "join sep (x # y # ys) = x @ sep @ join sep (y # ys)"

definition candidates :: "guess list \<Rightarrow> string list" where
  "candidates gs = map (\<lambda>g. [CHR 0x22] @ showWord (gword g) @ [CHR 0x22]) gs"

definition userPrompt :: "string option \<Rightarrow> guess list \<Rightarrow> string" where
  "userPrompt lastTermInChain gs =
     ''Alvo: '' @ [CHR 0x22] @ showWord lastTermInChain @ [CHR 0x22] @ ''. Candidatos: [''
       @ join '', '' (candidates gs) @ ''].''"

definition collectGuesses :: "player list \<Rightarrow> guess list" where
  "collectGuesses ps =
     map (\<lambda>p. \<lparr>groupId = pid p, gword = lastGuess p, gscore = None\<rparr>) (filter submitted ps)"

text \<open>
  \<^verbatim>\<open>evaluateRound\<close> up to its \<^verbatim>\<open>await\<close>. With no guess it runs to its end at once. With an
  empty chain the read of \<^verbatim>\<open>.word\<close> throws outside the \<^verbatim>\<open>try\<close>: the call stops there.
\<close>

definition evaluateRound :: "server \<Rightarrow> server" where
  "evaluateRound s =
     (if isEvaluating (gameState s) then s
      else
        let g1 = (gameState s)\<lparr>isEvaluating := True, isRoundActive := False\<rparr>;
            s1 = emit (GameStateMsg g1) (s\<lparr>gameState := g1, timerInterval := False\<rparr>)
        in case chain g1 of
             [] \<Rightarrow> s1
           | _ # _ \<Rightarrow>
               let lastTermInChain = word (last (chain g1));
                   gs = collectGuesses (players s1)
               in if gs = [] then startNextTurn (emit (RoundResult NoGuesses) s1)
                  else emit (OracleRequest (userPrompt lastTermInChain gs))
                         (s1\<lparr>pending := pending s1 @ [\<lparr>target = lastTermInChain, guesses = gs\<rparr>]\<rparr>))"

text \<open>
  \<^verbatim>\<open>results.forEach\<close>: \<^verbatim>\<open>guesses.find\<close> returns the first guess whose word equals the
  returned word in lower case, and its score is overwritten. \<open>None\<close> is the TypeError of
  \<^verbatim>\<open>g.word.toLowerCase()\<close> on a null word, which \<^verbatim>\<open>find\<close> meets before any later guess.
\<close>

fun setScore :: "runtime \<Rightarrow> string \<Rightarrow> int option \<Rightarrow> guess list \<Rightarrow> guess list option" where
  "setScore js w sc [] = Some []"
| "setScore js w sc (g # gs) =
     (case gword g of
        None \<Rightarrow> None
      | Some x \<Rightarrow>
          if toLowerCase js x = toLowerCase js w then Some (g\<lparr>gscore := sc\<rparr> # gs)
          else map_option (\<lambda>gs'. g # gs') (setScore js w sc gs))"

fun applyResults :: "runtime \<Rightarrow> (string \<times> int option) list \<Rightarrow> guess list
                       \<Rightarrow> guess list option" where
  "applyResults js [] gs = Some gs"
| "applyResults js ((w, sc) # rs) gs =
     (case setScore js w sc gs of None \<Rightarrow> None | Some gs' \<Rightarrow> applyResults js rs gs')"

text \<open>\<^verbatim>\<open>score || 0\<close> and \<^verbatim>\<open>score >= 57\<close> on an integer or undefined score.\<close>

definition scoreOr0 :: "guess \<Rightarrow> int" where
  "scoreOr0 g = (case gscore g of None \<Rightarrow> 0 | Some n \<Rightarrow> n)"

definition reaches57 :: "guess \<Rightarrow> bool" where
  "reaches57 g = (case gscore g of None \<Rightarrow> False | Some n \<Rightarrow> n \<ge> 57)"

text \<open>
  \<^verbatim>\<open>guesses.sort((a, b) => (b.score || 0) - (a.score || 0))\<close>: the stable sort of
  \<^verbatim>\<open>Array.prototype.sort\<close>, as an insertion sort that puts an element before the first one
  the comparator ranks strictly after it.
\<close>

fun insertGuess :: "guess \<Rightarrow> guess list \<Rightarrow> guess list" where
  "insertGuess a [] = [a]"
| "insertGuess a (b # bs) =
     (if scoreOr0 b - scoreOr0 a \<le> 0 then a # b # bs else b # insertGuess a bs)"

fun sortGuesses :: "guess list \<Rightarrow> guess list" where
  "sortGuesses [] = []"
| "sortGuesses (g # gs) = insertGuess g (sortGuesses gs)"

definition pointsToAdd :: "sid \<Rightarrow> guess \<Rightarrow> int" where
  "pointsToAdd winnerId g =
     (if reaches57 g then 2 else 0) + (if groupId g = winnerId then 5 else 0)"

text \<open>
  \<^verbatim>\<open>guesses.forEach\<close> of the scoring: the read of \<^verbatim>\<open>players[guess.groupId].score\<close> throws a
  TypeError when the player has left the roster; the scores added before stay. The second
  component is the lines of the alert, or \<open>None\<close> after the throw.
\<close>

fun award :: "sid \<Rightarrow> guess list \<Rightarrow> player list \<Rightarrow> (string \<times> guess \<times> int) list
                \<Rightarrow> player list \<times> (string \<times> guess \<times> int) list option" where
  "award winnerId [] ps ls = (ps, Some ls)"
| "award winnerId (g # gs) ps ls =
     (case lookup ps (groupId g) of
        None \<Rightarrow> (ps, None)
      | Some p \<Rightarrow>
          let pts = pointsToAdd winnerId g
          in award winnerId gs (modify (groupId g) (\<lambda>q. q\<lparr>score := score q + pts\<rparr>) ps)
               (ls @ [(name p, g, pts)]))"

text \<open>
  The body of the \<^verbatim>\<open>try\<close> after the \<^verbatim>\<open>await\<close>, on the roster: the new roster and, unless
  something threw, the message and the node to push.
\<close>

definition scoreRound :: "runtime \<Rightarrow> nat \<Rightarrow> oracle_reply \<Rightarrow> nat \<Rightarrow> pending_eval \<Rightarrow> player list
                            \<Rightarrow> player list \<times> (round_msg \<times> node) option" where
  "scoreRound js t reply r p ps =
     (case reply of
        OracleThrows \<Rightarrow> (ps, None)
      | OracleResults rs \<Rightarrow>
          (case applyResults js rs (guesses p) of
             None \<Rightarrow> (ps, None)
           | Some scored \<Rightarrow>
               (case sortGuesses scored of
                  [] \<Rightarrow> (ps, None)
                | winnerOfTheRound # rest \<Rightarrow>
                    (case lookup ps (groupId winnerOfTheRound) of
                       None \<Rightarrow> (ps, None)
                     | Some wp \<Rightarrow>
                         (case award (groupId winnerOfTheRound) (winnerOfTheRound # rest) ps [] of
                            (ps', None) \<Rightarrow> (ps', None)
                          | (ps', Some ls) \<Rightarrow>
                              let nextNodeData =
                                    (winnerOfTheRound # rest) ! (r mod length (winnerOfTheRound # rest));
                                  n = \<lparr>word = gword nextNodeData,
                                       playerId = Some (groupId nextNodeData)\<rparr>
                              in (ps', Some (Summary t winnerOfTheRound (name wp) ls n, n)))))))"

text \<open>
  The rest of \<^verbatim>\<open>evaluateRound\<close>, run when the oldest pending oracle call settles:
  \<^verbatim>\<open>try\<close>, \<^verbatim>\<open>catch\<close> and \<^verbatim>\<open>finally\<close>.
\<close>

definition oracleReturns :: "runtime \<Rightarrow> oracle_reply \<Rightarrow> nat \<Rightarrow> server \<Rightarrow> server" where
  "oracleReturns js reply r s =
     (case pending s of
        [] \<Rightarrow> s
      | p # rest \<Rightarrow>
          let s0 = s\<lparr>pending := rest\<rparr>
          in case scoreRound js (turn (gameState s0)) reply r p (players s0) of
               (ps, None) \<Rightarrow> startNextTurn (emit (RoundResult OracleError) (s0\<lparr>players := ps\<rparr>))
             | (ps, Some (msg, n)) \<Rightarrow>
                 startNextTurn (emit (RoundResult msg)
                   (s0\<lparr>players := ps,
                       gameState := (gameState s0)\<lparr>chain := chain (gameState s0) @ [n]\<rparr>\<rparr>)))"

text \<open>The callback of \<^verbatim>\<open>setInterval\<close>; it runs only while an interval is scheduled.\<close>

definition tick :: "server \<Rightarrow> server" where
  "tick s =
     (if \<not> timerInterval s then s
      else
        let s1 = (case timeLeft (gameState s) of
                    Some (Suc t) \<Rightarrow>
                      emit (Timer t) (s\<lparr>gameState := (gameState s)\<lparr>timeLeft := Some t\<rparr>\<rparr>)
                  | _ \<Rightarrow> s)
        in case timeLeft (gameState s1) of
             Some 0 \<Rightarrow>
               let s2 = s1\<lparr>timerInterval := False\<rparr>
               in if \<not> isEvaluating (gameState s2) then evaluateRound s2 else s2
           | _ \<Rightarrow> s1)"

section \<open>The socket handlers\<close>

text \<open>
  No player object has a property \<^verbatim>\<open>isHost\<close>, so \<^verbatim>\<open>p.isHost\<close> is undefined for each.
\<close>

definition isHost :: "player \<Rightarrow> bool" where
  "isHost p = False"

text \<open>
  The middleware refuses an empty name. \<^verbatim>\<open>part_000\<close> has no host: \<open>hostId\<close> stays
  \<open>None\<close> there.
\<close>

definition connection :: "runtime \<Rightarrow> variant \<Rightarrow> sid \<Rightarrow> string \<Rightarrow> server \<Rightarrow> server" where
  "connection js v k nm s =
     (if nm = [] then s
      else if status (gameState s) = Playing \<or> length (players s) \<ge> 50
      then emit (SocketDisconnect k) s
      else
        let h = (if v = Index_js \<and> toUpperCase js nm = ''LIDER'' \<and> \<not> list_ex isHost (players s)
                 then Some k else hostId s);
            p = \<lparr>pid = k, name = nm,
                 color = colors ! (length (players s) mod length colors),
                 score = 0, submitted = False, lastGuess = None\<rparr>;
            ps = assign (players s) k p
        in emit (LobbyState ps h) (s\<lparr>players := ps, hostId := h\<rparr>))"

definition startGame :: "variant \<Rightarrow> sid \<Rightarrow> nat \<Rightarrow> server \<Rightarrow> server" where
  "startGame v k r s =
     (if (case v of
            Index_js \<Rightarrow> Some k = hostId s \<and> status (gameState s) \<noteq> Playing
          | Part_000 \<Rightarrow> status (gameState s) = Lobby)
      then let s1 = resetGame r s in startTurnTimer (emit (GameStateMsg (gameState s1)) s1)
      else s)"

definition submitGuess :: "sid \<Rightarrow> string \<Rightarrow> server \<Rightarrow> server" where
  "submitGuess k w s =
     (case lookup (players s) k of
        None \<Rightarrow> s
      | Some p \<Rightarrow>
          if isRoundActive (gameState s) \<and> \<not> submitted p
          then
            let s1 = emit (GameStateMsg (gameState s))
                       (s\<lparr>players := modify k (\<lambda>q. q\<lparr>lastGuess := Some w, submitted := True\<rparr>)
                                       (players s)\<rparr>)
            in if list_all submitted (players s1) then evaluateRound s1 else s1
          else s)"

definition disconnect :: "sid \<Rightarrow> server \<Rightarrow> server" where
  "disconnect k s =
     (case lookup (players s) k of
        None \<Rightarrow> s
      | Some p \<Rightarrow>
          let wasHost = (Some k = hostId s);
              ps = delete (players s) k;
              h = (if wasHost then None else hostId s)
          in emit (LobbyState ps h) (s\<lparr>players := ps, hostId := h\<rparr>))"

text \<open>
  One step of the event loop: the reaction to one event. The handlers of \<^verbatim>\<open>startGame\<close>, \<^verbatim>\<open>submitGuess\<close> and
  \<^verbatim>\<open>disconnect\<close> are registered on a socket when its connection is accepted and it
  delivers no event after it has disconnected, so a socket has them exactly while its id
  is a key of the roster.
\<close>

definition connected :: "sid \<Rightarrow> server \<Rightarrow> bool" where
  "connected k s = (lookup (players s) k \<noteq> None)"

fun step :: "runtime \<Rightarrow> variant \<Rightarrow> event \<Rightarrow> server \<Rightarrow> server" where
  "step js v (Connection k nm) s = connection js v k nm s"
| "step js v (StartGame k r) s = (if connected k s then startGame v k r s else s)"
| "step js v (SubmitGuess k w) s = (if connected k s then submitGuess k w s else s)"
| "step js v (Disconnect k) s = (if connected k s then disconnect k s else s)"
| "step js v Tick s = tick s"
| "step js v (OracleReturns reply r) s = oracleReturns js reply r s"

definition run :: "runtime \<Rightarrow> variant \<Rightarrow> event list \<Rightarrow> server \<Rightarrow> server" where
  "run js v evs s = foldl (\<lambda>s e. step js v e s) s evs"

section \<open>Predicates of the properties\<close>

subsection \<open>The log\<close>

text \<open>
  Kinds of effect. In the log of a run, a \<^verbatim>\<open>gameState\<close> broadcast with \<^verbatim>\<open>isEvaluating\<close>
  set is sent only by an invocation of \<^verbatim>\<open>evaluateRound\<close> that has passed its guard.
\<close>

fun passesGuard :: "effect \<Rightarrow> bool" where
  "passesGuard (GameStateMsg g) = isEvaluating g"
| "passesGuard _ = False"

fun isRoundResult :: "effect \<Rightarrow> bool" where
  "isRoundResult (RoundResult m) = True"
| "isRoundResult _ = False"

fun isOracleRequest :: "effect \<Rightarrow> bool" where
  "isOracleRequest (OracleRequest x) = True"
| "isOracleRequest _ = False"

fun isSummary :: "effect \<Rightarrow> bool" where
  "isSummary (RoundResult (Summary t w nm ls n)) = True"
| "isSummary _ = False"

text \<open>
  \<open>flight k es\<close> reads a log with \<open>k\<close> evaluations under way: a guard may be passed only
  when none is, a round result may be sent only when one is; it returns the number under
  way at the end, or \<open>None\<close> when the log breaks the rule.
\<close>

fun flight :: "nat \<Rightarrow> effect list \<Rightarrow> nat option" where
  "flight k [] = Some k"
| "flight k (e # es) =
     (if passesGuard e then (if k = 0 then flight 1 es else None)
      else if isRoundResult e then (if k = 1 then flight 0 es else None)
      else flight k es)"

text \<open>The effects added to the log between two states.\<close>

definition newOut :: "server \<Rightarrow> server \<Rightarrow> effect list" where
  "newOut s s' = drop (length (out s)) (out s')"

text \<open>A piece of log with no guard passed, no round result and no oracle request.\<close>

definition quietOut :: "effect list \<Rightarrow> bool" where
  "quietOut xs \<longleftrightarrow>
     \<not> list_ex passesGuard xs \<and> \<not> list_ex isRoundResult xs \<and> \<not> list_ex isOracleRequest xs"

subsection \<open>States and steps of the event loop\<close>

text \<open>The invariant of the reachable states.\<close>

definition wf :: "server \<Rightarrow> bool" where
  "wf s \<longleftrightarrow>
     distinct (map pid (players s)) \<and>
     (\<forall>p \<in> set (players s). submitted p \<longrightarrow> lastGuess p \<noteq> None) \<and>
     (isRoundActive (gameState s) \<longrightarrow>
        status (gameState s) = Playing \<and> \<not> isEvaluating (gameState s)) \<and>
     (timerInterval s \<longrightarrow>
        isRoundActive (gameState s) \<and> (\<exists>t. timeLeft (gameState s) = Some (Suc t))) \<and>
     (status (gameState s) = Playing \<longrightarrow> chain (gameState s) \<noteq> []) \<and>
     length (pending s) \<le> 1 \<and>
     (\<forall>p \<in> set (pending s).
        isEvaluating (gameState s) \<and> status (gameState s) = Playing \<and> guesses p \<noteq> [] \<and>
        distinct (map groupId (guesses p)) \<and>
        (\<forall>x \<in> set (guesses p). gword x \<noteq> None \<and> gscore x = None)) \<and>
     flight 0 (out s) = Some (length (pending s))"

text \<open>The roster with every score erased: what scoring leaves as it is.\<close>

definition unscored :: "player list \<Rightarrow> player list" where
  "unscored ps = map (\<lambda>p. p\<lparr>score := 0\<rparr>) ps"

text \<open>
  The turn has advanced from \<open>s\<close> to \<open>s'\<close>: the game is finished after the last turn,
  otherwise the next turn is open and its timer runs.
\<close>

definition advanced :: "server \<Rightarrow> server \<Rightarrow> bool" where
  "advanced s s' \<longleftrightarrow>
     (if turn (gameState s) \<ge> MAX_TURNS then status (gameState s') = Finished
      else status (gameState s') = Playing \<and> turn (gameState s') = turn (gameState s) + 1 \<and>
           isRoundActive (gameState s') \<and> timerInterval s')"

text \<open>The chain node \<^verbatim>\<open>resetGame\<close> makes from a draw.\<close>

definition seedNode :: "nat \<Rightarrow> node" where
  "seedNode r = \<lparr>word = Some (seedWords ! (r mod length seedWords)), playerId = None\<rparr>"

text \<open>The events that carry a \<^verbatim>\<open>startGame\<close> command.\<close>

fun isStartGame :: "event \<Rightarrow> bool" where
  "isStartGame (StartGame k r) = True"
| "isStartGame _ = False"

text \<open>
  The four kinds of step of the event loop: nothing of the evaluation happens; an
  evaluation starts and sends its request; an evaluation finds no guess and skips the
  turn; the pending evaluation resumes and ends the turn.
\<close>

definition stepQuiet :: "server \<Rightarrow> server \<Rightarrow> bool" where
  "stepQuiet s s' \<longleftrightarrow>
     quietOut (newOut s s') \<and> pending s' = pending s \<and>
     (chain (gameState s') = chain (gameState s) \<or>
      status (gameState s) \<noteq> Playing \<and> (\<exists>r. chain (gameState s') = [seedNode r]))"

definition stepRequest :: "server \<Rightarrow> server \<Rightarrow> bool" where
  "stepRequest s s' \<longleftrightarrow>
     \<not> isEvaluating (gameState s) \<and> pending s = [] \<and>
     pending s' = [\<lparr>target = word (last (chain (gameState s))),
                    guesses = collectGuesses (players s')\<rparr>] \<and>
     collectGuesses (players s') \<noteq> [] \<and>
     (\<exists>pre g. quietOut pre \<and> isEvaluating g \<and>
        newOut s s' = pre @ [GameStateMsg g,
          OracleRequest (userPrompt (word (last (chain (gameState s))))
                           (collectGuesses (players s')))]) \<and>
     chain (gameState s') = chain (gameState s) \<and> turn (gameState s') = turn (gameState s) \<and>
     isEvaluating (gameState s')"

definition stepSkip :: "server \<Rightarrow> server \<Rightarrow> bool" where
  "stepSkip s s' \<longleftrightarrow>
     \<not> isEvaluating (gameState s) \<and> pending s = [] \<and> pending s' = [] \<and>
     (\<exists>pre g post. quietOut pre \<and> isEvaluating g \<and> quietOut post \<and>
        newOut s s' = pre @ [GameStateMsg g, RoundResult NoGuesses] @ post) \<and>
     chain (gameState s') = chain (gameState s) \<and> advanced s s'"

definition stepResult :: "server \<Rightarrow> server \<Rightarrow> bool" where
  "stepResult s s' \<longleftrightarrow>
     length (pending s) = 1 \<and> pending s' = [] \<and>
     (\<exists>m post. quietOut post \<and> newOut s s' = RoundResult m # post \<and>
        (case m of
           Summary t w nm ls n \<Rightarrow> chain (gameState s') = chain (gameState s) @ [n]
         | _ \<Rightarrow> chain (gameState s') = chain (gameState s))) \<and>
     advanced s s'"

subsection \<open>Guesses\<close>



text \<open>What the player with a given id gains from the scoring loop.\<close>

definition gain :: "sid \<Rightarrow> guess list \<Rightarrow> sid \<Rightarrow> int" where
  "gain winnerId gs k =
     (case find (\<lambda>g. groupId g = k) gs of None \<Rightarrow> 0 | Some g \<Rightarrow> pointsToAdd winnerId g)"

text \<open>The test of \<^verbatim>\<open>guesses.find\<close>: the words are equal in lower case.\<close>

definition matches :: "runtime \<Rightarrow> string \<Rightarrow> guess \<Rightarrow> bool" where
  "matches js w g =
     (case gword g of None \<Rightarrow> False | Some x \<Rightarrow> toLowerCase js x = toLowerCase js w)"


subsection \<open>Runs of the examples\<close>

text \<open>
  Two players join and the game starts on the seed \<^verbatim>\<open>Futuro\<close>; then one of them has
  submitted; both have, the second to join first; both have submitted the same word.
\<close>

definition lobby2 :: "event list" where
  "lobby2 = [Connection ''s1'' ''Ana'', Connection ''s2'' ''Bia'', StartGame ''s1'' 0]"

definition oneSubmitted :: "event list" where
  "oneSubmitted = lobby2 @ [SubmitGuess ''s1'' ''Passado'']"

definition bothSubmitted :: "event list" where
  "bothSubmitted = lobby2 @ [SubmitGuess ''s2'' ''Carro'', SubmitGuess ''s1'' ''Passado'']"


text \<open>
  An answer of the oracle to the two words, in another case; the two guesses it scores;
  the snapshot of that round; an answer with one of the words only.
\<close>

definition replyAB :: oracle_reply where
  "replyAB = OracleResults [(''passado'', Some 80), (''CARRO'', Some 10)]"

definition guessAna :: guess where
  "guessAna = \<lparr>groupId = ''s1'', gword = Some ''Passado'', gscore = Some 80\<rparr>"

definition guessBia :: guess where
  "guessBia = \<lparr>groupId = ''s2'', gword = Some ''Carro'', gscore = Some 10\<rparr>"

definition snapshotAB :: pending_eval where
  "snapshotAB = \<lparr>target = Some ''Futuro'',
     guesses = [\<lparr>groupId = ''s1'', gword = Some ''Passado'', gscore = None\<rparr>,
                \<lparr>groupId = ''s2'', gword = Some ''Carro'', gscore = None\<rparr>]\<rparr>"


text \<open>
  Both players submit and the one who joined first, whose word scores best, leaves while
  the oracle is asked.
\<close>

definition leftDuringCall :: "event list" where
  "leftDuringCall = bothSubmitted @ [Disconnect ''s1'',
     OracleReturns (OracleResults [(''Passado'', Some 80), (''Carro'', Some 10)]) 1]"

text \<open>
  One player joins and starts the game: the word submitted is with the oracle; the timer
  of the first turn runs out with no word submitted; under the given name, the ten turns
  are played, the oracle call failing in each.
\<close>

definition solo1 :: "event list" where
  "solo1 = [Connection ''s1'' ''Ana'', StartGame ''s1'' 0, SubmitGuess ''s1'' ''Passado'']"

definition idle30 :: "event list" where
  "idle30 = [Connection ''s1'' ''Ana'', StartGame ''s1'' 0] @ replicate 30 Tick"

definition solo10 :: "string \<Rightarrow> event list" where
  "solo10 nm = [Connection ''s1'' nm, StartGame ''s1'' 0]
     @ concat (replicate 10 [SubmitGuess ''s1'' ''Sol'', OracleReturns OracleThrows 0])"



text \<open>
  The first player joins under the given name (\<^verbatim>\<open>Lider\<close> makes the host of
  \<^verbatim>\<open>index.js\<close>) and starts the game; both players submit; the first leaves while the
  oracle is asked; the oracle scores both words, 80 and 60.
\<close>

definition winnerLeaves :: "string \<Rightarrow> event list" where
  "winnerLeaves nm = [Connection ''s1'' nm, Connection ''s2'' ''Bia'', StartGame ''s1'' 0,
     SubmitGuess ''s2'' ''Carro'', SubmitGuess ''s1'' ''Passado'', Disconnect ''s1'',
     OracleReturns (OracleResults [(''Passado'', Some 80), (''Carro'', Some 60)]) 1]"

section \<open>The invariant holds in every reachable state\<close>

lemma flight_append:
  "flight k (xs @ ys) = (case flight k xs of None \<Rightarrow> None | Some j \<Rightarrow> flight j ys)"
  by (induction xs arbitrary: k) auto

lemma wf_init: "wf init"
  by (simp add: wf_def init_def)

lemma pid_modify: "(\<And>q. pid (f q) = pid q) \<Longrightarrow> map pid (modify k f ps) = map pid ps"
  by (induction ps) auto

lemma set_modify: "x \<in> set (modify k f ps) \<Longrightarrow> x \<in> set ps \<or> (\<exists>q \<in> set ps. pid q = k \<and> x = f q)"
  by (induction ps) (auto split: if_splits)

lemma pid_assign: "pid q = k \<Longrightarrow> pid ` set (assign ps k q) = insert k (pid ` set ps)"
  by (induction ps) auto

lemma distinct_assign: "pid q = k \<Longrightarrow> distinct (map pid ps) \<Longrightarrow> distinct (map pid (assign ps k q))"
  by (induction ps) (auto simp: pid_assign)

lemma set_assign: "x \<in> set (assign ps k q) \<Longrightarrow> x = q \<or> x \<in> set ps"
  by (induction ps) (auto split: if_splits)

lemma distinct_delete: "distinct (map pid ps) \<Longrightarrow> distinct (map pid (delete ps k))"
  by (simp add: delete_def distinct_map_filter)

lemma lookup_Some: "lookup ps k = Some p \<Longrightarrow> p \<in> set ps \<and> pid p = k"
  by (induction ps) (auto split: if_splits)

lemma lookup_None: "lookup ps k = None \<longleftrightarrow> k \<notin> pid ` set ps"
  by (induction ps) auto

lemma wf_startNextTurn:
  assumes "distinct (map pid (players s))"
    and "\<forall>p \<in> set (players s). submitted p \<longrightarrow> lastGuess p \<noteq> None"
    and "status (gameState s) = Playing" and "chain (gameState s) \<noteq> []"
    and "\<not> isRoundActive (gameState s)" and "\<not> timerInterval s" and "pending s = []"
    and "flight 0 (out s) = Some 0"
  shows "wf (startNextTurn s)"
  using assms
  by (auto simp: wf_def startNextTurn_def startTurnTimer_def emit_def clearRound_def Let_def
      TURN_DURATION_def flight_append comp_def)

lemma distinct_collect: "distinct (map pid ps) \<Longrightarrow> distinct (map groupId (collectGuesses ps))"
  by (simp add: collectGuesses_def comp_def distinct_map_filter)

lemma wf_evaluateRound:
  assumes "wf s" and "isRoundActive (gameState s)"
  shows "wf (evaluateRound s)"
proof -
  from assms have ne: "\<not> isEvaluating (gameState s)" and pl: "status (gameState s) = Playing"
    and ch: "chain (gameState s) \<noteq> []" and pe: "pending s = []"
    by (auto simp: wf_def)
  show ?thesis
  proof (cases "collectGuesses (players s) = []")
    case True
    have "wf (startNextTurn (emit (RoundResult NoGuesses)
            (emit (GameStateMsg ((gameState s)\<lparr>isEvaluating := True, isRoundActive := False\<rparr>))
              (s\<lparr>gameState := (gameState s)\<lparr>isEvaluating := True, isRoundActive := False\<rparr>,
                 timerInterval := False\<rparr>))))"
      using assms pe by (intro wf_startNextTurn) (auto simp: wf_def emit_def flight_append)
    with True ne ch show ?thesis
      by (auto simp: evaluateRound_def Let_def emit_def split: list.splits)
  next
    case False
    with assms ne ch pe show ?thesis
      by (auto simp: evaluateRound_def Let_def emit_def wf_def flight_append distinct_collect
          split: list.splits)
        (auto simp: collectGuesses_def)
  qed
qed


lemma wf_connection: "wf s \<Longrightarrow> wf (connection js v k nm s)"
  by (auto simp: wf_def connection_def emit_def Let_def flight_append distinct_assign
      dest!: set_assign)

lemma wf_startGame: "wf s \<Longrightarrow> wf (startGame v k r s)"
  by (cases v)
     (auto simp: wf_def startGame_def resetGame_def startTurnTimer_def emit_def Let_def
       flight_append comp_def TURN_DURATION_def)

lemma wf_disconnect: "wf s \<Longrightarrow> wf (disconnect k s)"
  by (auto simp: wf_def disconnect_def emit_def Let_def flight_append distinct_delete
      split: option.splits)
     (auto simp: delete_def)

lemma wf_submitGuess: "wf s \<Longrightarrow> wf (submitGuess k w s)"
proof (cases "lookup (players s) k")
  case None
  assume "wf s" with None show ?thesis by (simp add: submitGuess_def)
next
  case (Some p)
  assume w: "wf s"
  let ?s1 = "emit (GameStateMsg (gameState s))
               (s\<lparr>players := modify k (\<lambda>q. q\<lparr>lastGuess := Some w, submitted := True\<rparr>) (players s)\<rparr>)"
  show ?thesis
  proof (cases "isRoundActive (gameState s) \<and> \<not> submitted p")
    case False
    with Some w show ?thesis by (auto simp: submitGuess_def)
  next
    case True
    have w1: "wf ?s1"
      using w True
      by (auto simp: wf_def emit_def flight_append pid_modify dest!: set_modify)
    have "isRoundActive (gameState ?s1)" using True by (simp add: emit_def)
    with w1 have "wf (evaluateRound ?s1)" by (rule wf_evaluateRound)
    with w1 Some True show ?thesis by (simp add: submitGuess_def Let_def)
  qed
qed

lemma wf_tick: "wf s \<Longrightarrow> wf (tick s)"
proof (cases "timerInterval s")
  case False
  assume "wf s" with False show ?thesis by (simp add: tick_def)
next
  case True
  assume w: "wf s"
  with True obtain t where t: "timeLeft (gameState s) = Some (Suc t)"
    and ra: "isRoundActive (gameState s)"
    by (auto simp: wf_def)
  let ?s1 = "emit (Timer t) (s\<lparr>gameState := (gameState s)\<lparr>timeLeft := Some t\<rparr>\<rparr>)"
  show ?thesis
  proof (cases t)
    case (Suc u)
    with w True t show ?thesis
      by (auto simp: tick_def wf_def emit_def flight_append)
  next
    case 0
    have w2: "wf (?s1\<lparr>timerInterval := False\<rparr>)"
      using w by (auto simp: wf_def emit_def flight_append)
    have "isRoundActive (gameState (?s1\<lparr>timerInterval := False\<rparr>))"
      using ra by (simp add: emit_def)
    with w2 have "wf (evaluateRound (?s1\<lparr>timerInterval := False\<rparr>))"
      by (rule wf_evaluateRound)
    moreover have "\<not> isEvaluating (gameState s)" using w ra by (auto simp: wf_def)
    ultimately show ?thesis using True t 0
      by (simp add: tick_def emit_def)
  qed
qed


lemma unscored_modify: "unscored (modify k (\<lambda>q. q\<lparr>score := score q + n\<rparr>) ps) = unscored ps"
  by (induction ps) (auto simp: unscored_def)

lemma unscored_award: "award w gs ps ls = (ps', r) \<Longrightarrow> unscored ps' = unscored ps"
  by (induction gs arbitrary: ps ls) (auto simp: Let_def unscored_modify split: option.splits)

lemma unscored_scoreRound: "scoreRound js t reply r p ps = (ps', res) \<Longrightarrow> unscored ps' = unscored ps"
  by (auto simp del: award.simps simp: scoreRound_def Let_def
      split: oracle_reply.splits option.splits list.splits prod.splits dest: unscored_award)

lemma unscored_pid: "unscored ps' = unscored ps \<Longrightarrow> map pid ps' = map pid ps"
proof -
  assume "unscored ps' = unscored ps"
  then have "map pid (unscored ps') = map pid (unscored ps)" by simp
  then show ?thesis by (simp add: unscored_def comp_def)
qed

lemma unscored_mem:
  assumes "unscored ps' = unscored ps" and "x \<in> set ps'"
  shows "\<exists>y \<in> set ps. pid y = pid x \<and> name y = name x \<and> submitted y = submitted x \<and> lastGuess y = lastGuess x"
proof -
  from assms(2) have "x\<lparr>score := 0\<rparr> \<in> set (unscored ps')" by (auto simp: unscored_def)
  with assms(1) obtain y where y: "y \<in> set ps" and e: "y\<lparr>score := 0\<rparr> = x\<lparr>score := 0\<rparr>"
    by (auto simp: unscored_def)
  from e have "pid (y\<lparr>score := 0\<rparr>) = pid (x\<lparr>score := 0\<rparr>)"
    and "name (y\<lparr>score := 0\<rparr>) = name (x\<lparr>score := 0\<rparr>)"
    and "submitted (y\<lparr>score := 0\<rparr>) = submitted (x\<lparr>score := 0\<rparr>)"
    and "lastGuess (y\<lparr>score := 0\<rparr>) = lastGuess (x\<lparr>score := 0\<rparr>)" by simp_all
  with y show ?thesis by auto
qed

lemma wf_oracleReturns: "wf s \<Longrightarrow> wf (oracleReturns js reply r s)"
proof (cases "pending s")
  case Nil
  assume "wf s" with Nil show ?thesis by (simp add: oracleReturns_def)
next
  case (Cons p rest)
  assume w: "wf s"
  with Cons have rest: "rest = []" by (auto simp: wf_def)
  obtain ps res where sr: "scoreRound js (turn (gameState s)) reply r p (players s) = (ps, res)"
    by (cases "scoreRound js (turn (gameState s)) reply r p (players s)") auto
  from sr have u: "unscored ps = unscored (players s)" by (rule unscored_scoreRound)
  have d: "distinct (map pid ps)" using w unscored_pid [OF u] by (simp add: wf_def)
  have l: "\<forall>x \<in> set ps. submitted x \<longrightarrow> lastGuess x \<noteq> None"
  proof (intro ballI impI)
    fix x assume x: "x \<in> set ps" and sx: "submitted x"
    from unscored_mem [OF u x] obtain y where "y \<in> set (players s)"
      and "submitted y = submitted x" and "lastGuess y = lastGuess x" by auto
    moreover from w have "\<forall>p \<in> set (players s). submitted p \<longrightarrow> lastGuess p \<noteq> None"
      by (simp add: wf_def)
    ultimately show "lastGuess x \<noteq> None" using sx by metis
  qed
  from w Cons have g: "isEvaluating (gameState s)" "status (gameState s) = Playing"
    "chain (gameState s) \<noteq> []" "\<not> isRoundActive (gameState s)" "\<not> timerInterval s"
    "flight 0 (out s) = Some 1"
    by (auto simp: wf_def)
  show ?thesis
  proof (cases res)
    case None
    have "wf (startNextTurn (emit (RoundResult OracleError) (s\<lparr>pending := [], players := ps\<rparr>)))"
      using d l g by (intro wf_startNextTurn) (auto simp: emit_def flight_append)
    with None sr Cons rest show ?thesis by (simp add: oracleReturns_def)
  next
    case (Some mn)
    obtain msg n where mn: "mn = (msg, n)" by (cases mn) auto
    have "wf (startNextTurn (emit (RoundResult msg)
             (s\<lparr>pending := [], players := ps,
                 gameState := (gameState s)\<lparr>chain := chain (gameState s) @ [n]\<rparr>\<rparr>)))"
      using d l g by (intro wf_startNextTurn) (auto simp: emit_def flight_append)
    with Some mn sr Cons rest show ?thesis by (simp add: oracleReturns_def)
  qed
qed

lemma wf_step: "wf s \<Longrightarrow> wf (step js v e s)"
  by (cases e) (simp_all add: wf_connection wf_startGame wf_submitGuess wf_disconnect wf_tick wf_oracleReturns)

lemma wf_run: "wf s \<Longrightarrow> wf (run js v evs s)"
  unfolding run_def by (induction evs arbitrary: s) (simp_all add: wf_step)

lemma wf_reachable: "wf (run js v evs init)"
  by (rule wf_run [OF wf_init])

lemma lookup_modify:
  "(\<And>q. pid (f q) = pid q) \<Longrightarrow>
   lookup (modify k f ps) k' = (if k' = k then map_option f (lookup ps k) else lookup ps k')"
  by (induction ps) auto

lemma collect_modify_ne:
  "lookup ps k = Some p \<Longrightarrow>
   collectGuesses (modify k (\<lambda>q. q\<lparr>lastGuess := Some w, submitted := True\<rparr>) ps) \<noteq> []"
  by (induction ps) (auto simp: collectGuesses_def split: if_splits)

lemma players_evaluateRound:
  "collectGuesses (players s) \<noteq> [] \<Longrightarrow> players (evaluateRound s) = players s"
  by (auto simp: evaluateRound_def Let_def emit_def split: list.splits)

section \<open>Submissions\<close>

text \<open>
  Claim C7. In every reachable state, a \<^verbatim>\<open>submitGuess\<close> event is recorded (the player's
  \<^verbatim>\<open>lastGuess\<close> is the word and \<^verbatim>\<open>submitted\<close> is true) if the status is playing, the
  round is active, no evaluation is under way, the socket's id is in the roster and the
  player has not submitted in this turn; in every other case the event changes nothing, so
  a second submission never overwrites the first.
\<close>

theorem submitGuess_recorded_iff:
  "let s = run js v evs init; s' = step js v (SubmitGuess k w) s;
       accepted = (status (gameState s) = Playing \<and> isRoundActive (gameState s) \<and>
                   \<not> isEvaluating (gameState s) \<and>
                   (case lookup (players s) k of None \<Rightarrow> False | Some p \<Rightarrow> \<not> submitted p))
   in (accepted \<longrightarrow>
         map_option (\<lambda>p. p\<lparr>lastGuess := Some w, submitted := True\<rparr>) (lookup (players s) k)
           = lookup (players s') k) \<and>
      (\<not> accepted \<longrightarrow> s' = s)"
proof -
  define s where "s = run js v evs init"
  have w: "wf s" unfolding s_def by (rule wf_reachable)
  then have ra: "isRoundActive (gameState s) \<Longrightarrow>
      status (gameState s) = Playing \<and> \<not> isEvaluating (gameState s)"
    by (simp add: wf_def)
  have "(case lookup (players s) k of None \<Rightarrow> True
         | Some p \<Rightarrow>
             if isRoundActive (gameState s) \<and> \<not> submitted p
             then lookup (players (step js v (SubmitGuess k w) s)) k
                    = Some (p\<lparr>lastGuess := Some w, submitted := True\<rparr>)
             else step js v (SubmitGuess k w) s = s) \<and>
        (lookup (players s) k = None \<longrightarrow> step js v (SubmitGuess k w) s = s)"
    by (auto simp: connected_def submitGuess_def Let_def emit_def players_evaluateRound
        collect_modify_ne lookup_modify split: option.splits)
  with ra show ?thesis
    unfolding s_def [symmetric] Let_def by (auto split: option.splits)
qed

theorem submitGuess_recorded_iff_witness:
  "(status (gameState (run ascii Part_000 lobby2 init)) = Playing \<and>
    isRoundActive (gameState (run ascii Part_000 lobby2 init)) \<and>
    \<not> isEvaluating (gameState (run ascii Part_000 lobby2 init)) \<and>
    (case lookup (players (run ascii Part_000 lobby2 init)) ''s1'' of
       None \<Rightarrow> False | Some p \<Rightarrow> \<not> submitted p)) \<and>
   map_option (\<lambda>p. p\<lparr>lastGuess := Some ''Passado'', submitted := True\<rparr>)
       (lookup (players (run ascii Part_000 lobby2 init)) ''s1'')
     = lookup (players (step ascii Part_000 (SubmitGuess ''s1'' ''Passado'')
                 (run ascii Part_000 lobby2 init))) ''s1'' \<and>
   \<not> (case lookup (players (run ascii Part_000 (lobby2 @ [SubmitGuess ''s1'' ''Passado'']) init)) ''s1'' of
        None \<Rightarrow> False | Some p \<Rightarrow> \<not> submitted p) \<and>
   step ascii Part_000 (SubmitGuess ''s1'' ''Outra'')
       (run ascii Part_000 (lobby2 @ [SubmitGuess ''s1'' ''Passado'']) init)
     = run ascii Part_000 (lobby2 @ [SubmitGuess ''s1'' ''Passado'']) init"
proof -
  have a: "status (gameState (run ascii Part_000 lobby2 init)) = Playing \<and>
    isRoundActive (gameState (run ascii Part_000 lobby2 init)) \<and>
    \<not> isEvaluating (gameState (run ascii Part_000 lobby2 init)) \<and>
    (case lookup (players (run ascii Part_000 lobby2 init)) ''s1'' of
       None \<Rightarrow> False | Some p \<Rightarrow> \<not> submitted p)"
    by code_simp
  have b: "\<not> (case lookup (players (run ascii Part_000 (lobby2 @ [SubmitGuess ''s1'' ''Passado'']) init)) ''s1'' of
        None \<Rightarrow> False | Some p \<Rightarrow> \<not> submitted p)"
    by code_simp
  show ?thesis
    using a b submitGuess_recorded_iff [of ascii Part_000 lobby2 "''s1''" "''Passado''"]
      submitGuess_recorded_iff [of ascii Part_000 "lobby2 @ [SubmitGuess ''s1'' ''Passado'']" "''s1''" "''Outra''"]
    unfolding Let_def by blast
qed

section \<open>Runs\<close>



section \<open>Connections\<close>

text \<open>
  Claim C3, as the code has it. A connection is refused (the socket is closed, the roster,
  the host and the game state stay as they are) whenever the status is playing or the
  roster has 50 players or more. In any other status, finished included, a connection
  with a name and fewer than 50 players in the roster is accepted and its player created.
\<close>

theorem connection_rejected_playing_or_full:
  "let s' = step js v (Connection k nm) s
   in (status (gameState s) = Playing \<or> length (players s) \<ge> 50 \<longrightarrow>
         players s' = players s \<and> hostId s' = hostId s \<and> gameState s' = gameState s \<and>
         (nm \<noteq> [] \<longrightarrow> newOut s s' = [SocketDisconnect k])) \<and>
      (status (gameState s) \<noteq> Playing \<and> length (players s) < 50 \<and> nm \<noteq> [] \<longrightarrow>
         lookup (players s') k
           = Some \<lparr>pid = k, name = nm, color = colors ! (length (players s) mod length colors),
                   score = 0, submitted = False, lastGuess = None\<rparr>)"
proof -
  have "pid q = k \<Longrightarrow> lookup (assign ps k q) k = Some q" for ps q
    by (induction ps) auto
  then show ?thesis
    by (auto simp: connection_def Let_def emit_def newOut_def)
qed

theorem connection_rejected_playing_or_full_witness:
  "(status (gameState (run ascii Part_000 lobby2 init)) = Playing \<or>
      length (players (run ascii Part_000 lobby2 init)) \<ge> 50) \<and>
   players (step ascii Part_000 (Connection ''s3'' ''Caio'') (run ascii Part_000 lobby2 init))
     = players (run ascii Part_000 lobby2 init) \<and>
   (status (gameState (run ascii Part_000 (solo10 ''Ana'') init)) \<noteq> Playing \<and>
      length (players (run ascii Part_000 (solo10 ''Ana'') init)) < 50 \<and> ''Bia'' \<noteq> []) \<and>
   lookup (players (step ascii Part_000 (Connection ''s2'' ''Bia'')
       (run ascii Part_000 (solo10 ''Ana'') init))) ''s2''
     = Some \<lparr>pid = ''s2'', name = ''Bia'',
             color = colors ! (length (players (run ascii Part_000 (solo10 ''Ana'') init)) mod length colors),
             score = 0, submitted = False, lastGuess = None\<rparr>"
proof -
  have a: "status (gameState (run ascii Part_000 lobby2 init)) = Playing"
    by code_simp
  have b: "status (gameState (run ascii Part_000 (solo10 ''Ana'') init)) \<noteq> Playing \<and>
      length (players (run ascii Part_000 (solo10 ''Ana'') init)) < 50 \<and> ''Bia'' \<noteq> []"
    by code_simp
  show ?thesis
    using a b
      connection_rejected_playing_or_full [of ascii Part_000 "''s3''" "''Caio''" "run ascii Part_000 lobby2 init"]
      connection_rejected_playing_or_full [of ascii Part_000 "''s2''" "''Bia''" "run ascii Part_000 (solo10 ''Ana'') init"]
    unfolding Let_def by blast
qed

text \<open>
  Claim C3 as stated fails: after the ten turns of a game the status is finished, not
  lobby, and a connection is accepted and joins the roster.
\<close>

theorem connection_finished_counterexample:
  "status (gameState (run ascii Part_000 (solo10 ''Ana'') init)) = Finished \<and>
   map pid (players (run ascii Part_000 (solo10 ''Ana'') init)) = [''s1''] \<and>
   map pid (players (step ascii Part_000 (Connection ''s2'' ''Bia'') (run ascii Part_000 (solo10 ''Ana'') init)))
     = [''s1'', ''s2'']"
  by code_simp

section \<open>The finished status\<close>







section \<open>A failing oracle call\<close>

lemma startNextTurn_effect:
  "chain (gameState (startNextTurn s)) = chain (gameState s) \<and>
   map score (players (startNextTurn s)) = map score (players s) \<and>
   map pid (players (startNextTurn s)) = map pid (players s) \<and>
   pending (startNextTurn s) = pending s \<and>
   (if turn (gameState s) \<ge> MAX_TURNS
    then status (gameState (startNextTurn s)) = Finished \<and>
         out (startNextTurn s) = out s @ [GameOver (players s) (hostId s)]
    else status (gameState (startNextTurn s)) = status (gameState s) \<and>
         turn (gameState (startNextTurn s)) = turn (gameState s) + 1 \<and>
         isRoundActive (gameState (startNextTurn s)) \<and>
         \<not> isEvaluating (gameState (startNextTurn s)) \<and>
         timerInterval (startNextTurn s) \<and>
         (\<exists>g. out (startNextTurn s) = out s @ [GameStateMsg g, Timer TURN_DURATION] \<and> \<not> isEvaluating g))"
  by (auto simp: startNextTurn_def startTurnTimer_def emit_def Let_def clearRound_def comp_def)

text \<open>
  Claim C2, as the code has it. When the oracle call of a round under evaluation throws,
  the error notice is the one round result broadcast, no score changes, the chain is left
  as it is (no node is appended), and the turn advances: the next turn starts with its
  timer, or the game is finished after the last turn.
\<close>

theorem oracle_failure_skips_turn:
  "let s = run js v evs init; s' = step js v (OracleReturns OracleThrows r) s
   in pending s \<noteq> [] \<longrightarrow>
      hd (newOut s s') = RoundResult OracleError \<and>
      length (filter isRoundResult (newOut s s')) = 1 \<and>
      map pid (players s') = map pid (players s) \<and>
      map score (players s') = map score (players s) \<and>
      chain (gameState s') = chain (gameState s) \<and>
      (if turn (gameState s) \<ge> MAX_TURNS then status (gameState s') = Finished
       else status (gameState s') = Playing \<and> turn (gameState s') = turn (gameState s) + 1 \<and>
            isRoundActive (gameState s') \<and> timerInterval s')"
proof -
  define s where "s = run js v evs init"
  have w: "wf s" unfolding s_def by (rule wf_reachable)
  have "pending s \<noteq> [] \<Longrightarrow> status (gameState s) = Playing"
    using w by (cases "pending s") (auto simp: wf_def)
  then show ?thesis
    unfolding s_def [symmetric] Let_def
    using startNextTurn_effect [of "emit (RoundResult OracleError) (s\<lparr>pending := tl (pending s), players := players s\<rparr>)"]
    by (cases "pending s")
       (auto simp: oracleReturns_def scoreRound_def emit_def newOut_def split: if_splits)
qed

theorem oracle_failure_skips_turn_witness:
  "pending (run ascii Part_000 solo1 init) \<noteq> [] \<and>
   hd (newOut (run ascii Part_000 solo1 init)
        (step ascii Part_000 (OracleReturns OracleThrows 0) (run ascii Part_000 solo1 init)))
     = RoundResult OracleError \<and>
   map score (players (step ascii Part_000 (OracleReturns OracleThrows 0) (run ascii Part_000 solo1 init)))
     = map score (players (run ascii Part_000 solo1 init)) \<and>
   chain (gameState (step ascii Part_000 (OracleReturns OracleThrows 0) (run ascii Part_000 solo1 init)))
     = chain (gameState (run ascii Part_000 solo1 init))"
proof -
  have a: "pending (run ascii Part_000 solo1 init) \<noteq> []"
    by code_simp
  show ?thesis
    using a oracle_failure_skips_turn [of ascii Part_000 solo1 0]
    unfolding Let_def by blast
qed

text \<open>
  Claim C2 as stated fails: after a failing oracle call the chain still holds the seed
  alone, although a word had been submitted, and the turn has advanced.
\<close>

theorem oracle_failure_chain_counterexample:
  "map gword (guesses (hd (pending (run ascii Part_000 solo1 init)))) = [Some ''Passado''] \<and>
   chain (gameState (run ascii Part_000 solo1 init)) = [\<lparr>word = Some ''Futuro'', playerId = None\<rparr>] \<and>
   chain (gameState (step ascii Part_000 (OracleReturns OracleThrows 0) (run ascii Part_000 solo1 init)))
     = [\<lparr>word = Some ''Futuro'', playerId = None\<rparr>] \<and>
   turn (gameState (step ascii Part_000 (OracleReturns OracleThrows 0) (run ascii Part_000 solo1 init))) = 2"
  by code_simp

section \<open>Disconnections\<close>






section \<open>Sorting the guesses\<close>

lemma set_insertGuess: "set (insertGuess a bs) = insert a (set bs)"
  by (induction bs) auto





lemma sortGuesses_Nil: "sortGuesses gs = [] \<longleftrightarrow> gs = []"
proof (cases gs)
  case Nil
  then show ?thesis by simp
next
  case (Cons g gs')
  have "insertGuess g (sortGuesses gs') \<noteq> []" by (cases "sortGuesses gs'") auto
  with Cons show ?thesis by simp
qed



lemma set_sortGuesses: "set (sortGuesses gs) = set gs"
  by (induction gs) (auto simp: set_insertGuess)

lemma distinct_sortGuesses: "distinct (map groupId gs) \<Longrightarrow> distinct (map groupId (sortGuesses gs))"
proof (induction gs)
  case Nil
  show ?case by simp
next
  case (Cons g gs)
  have "groupId a \<notin> groupId ` set bs \<Longrightarrow> distinct (map groupId bs)
        \<Longrightarrow> distinct (map groupId (insertGuess a bs))" for a bs
    by (induction bs) (auto simp: set_insertGuess)
  with Cons show ?case by (simp add: set_sortGuesses)
qed

section \<open>Scoring\<close>

lemma scoreRound_SomeD:
  assumes "scoreRound js t reply r p ps = (ps', Some (msg, n))"
  shows "\<exists>rs sc w rest wp ls.
           reply = OracleResults rs \<and> applyResults js rs (guesses p) = Some sc \<and>
           sortGuesses sc = w # rest \<and> lookup ps (groupId w) = Some wp \<and>
           award (groupId w) (w # rest) ps [] = (ps', Some ls) \<and>
           msg = Summary t w (name wp) ls n \<and>
           n = \<lparr>word = gword ((w # rest) ! (r mod length (w # rest))),
                playerId = Some (groupId ((w # rest) ! (r mod length (w # rest))))\<rparr>"
  using assms
  by (auto simp del: award.simps simp: scoreRound_def Let_def
      split: oracle_reply.splits option.splits list.splits prod.splits)

lemma map_absent: "k \<notin> pid ` set ps \<Longrightarrow> map (\<lambda>q. if pid q = k then f q else q) ps = ps"
  by (induction ps) auto

lemma modify_map:
  "distinct (map pid ps) \<Longrightarrow> modify k f ps = map (\<lambda>q. if pid q = k then f q else q) ps"
  by (induction ps) (auto simp: map_absent)

lemma award_map:
  assumes "distinct (map pid ps)" and "distinct (map groupId gs)"
    and "award w gs ps ls = (ps', Some ls')"
  shows "ps' = map (\<lambda>q. q\<lparr>score := score q + gain w gs (pid q)\<rparr>) ps \<and>
         map (\<lambda>(nm, g, pts). (g, pts)) ls'
           = map (\<lambda>(nm, g, pts). (g, pts)) ls @ map (\<lambda>g. (g, pointsToAdd w g)) gs \<and>
         groupId ` set gs \<subseteq> pid ` set ps"
  using assms
proof (induction gs arbitrary: ps ls)
  case Nil
  then show ?case by (simp add: gain_def map_idI)
next
  case (Cons g gs)
  from Cons.prems(3) obtain p where p: "lookup ps (groupId g) = Some p"
    by (auto split: option.splits)
  let ?ps1 = "modify (groupId g) (\<lambda>q. q\<lparr>score := score q + pointsToAdd w g\<rparr>) ps"
  from Cons.prems(3) p
  have a: "award w gs ?ps1 (ls @ [(name p, g, pointsToAdd w g)]) = (ps', Some ls')"
    by (simp add: Let_def)
  have d1: "distinct (map pid ?ps1)" using Cons.prems(1) by (simp add: pid_modify)
  have d2: "distinct (map groupId gs)" using Cons.prems(2) by simp
  note ih = Cons.IH [OF d1 d2 a]
  have m: "?ps1 = map (\<lambda>q. if pid q = groupId g then q\<lparr>score := score q + pointsToAdd w g\<rparr> else q) ps"
    using Cons.prems(1) by (rule modify_map)
  have g: "gain w (g # gs) k = (if groupId g = k then pointsToAdd w g else gain w gs k)" for k
    by (simp add: gain_def)
  have ng: "groupId g \<notin> groupId ` set gs" using Cons.prems(2) by auto
  have "\<forall>x \<in> set gs. groupId x \<noteq> groupId g" using ng by (metis image_eqI)
  then have z: "find (\<lambda>x. groupId x = groupId g) gs = None"
    by (simp add: find_None_iff)
  have "ps' = map (\<lambda>q. q\<lparr>score := score q + gain w (g # gs) (pid q)\<rparr>) ps"
    using ih m z by (auto simp: g gain_def)
  moreover have "groupId g \<in> pid ` set ps" using p by (metis lookup_Some imageI)
  moreover have "pid ` set ?ps1 = pid ` set ps"
    using pid_modify [of "\<lambda>q. q\<lparr>score := score q + pointsToAdd w g\<rparr>" "groupId g" ps]
    by (metis (no_types, lifting) list.set_map player.select_convs(1) player.surjective player.update_convs(4))
  ultimately show ?case using ih by auto
qed

lemma award_total:
  "groupId ` set gs \<subseteq> pid ` set ps \<Longrightarrow> \<exists>ps' ls'. award w gs ps ls = (ps', Some ls')"
proof (induction gs arbitrary: ps ls)
  case Nil
  show ?case by simp
next
  case (Cons g gs)
  from Cons.prems have "groupId g \<in> pid ` set ps" by simp
  then obtain p where p: "lookup ps (groupId g) = Some p"
    using lookup_None [of ps "groupId g"] by (cases "lookup ps (groupId g)") auto
  let ?ps1 = "modify (groupId g) (\<lambda>q. q\<lparr>score := score q + pointsToAdd w g\<rparr>) ps"
  have "map pid ?ps1 = map pid ps" by (simp add: pid_modify)
  then have "pid ` set ?ps1 = pid ` set ps" by (metis list.set_map)
  with Cons.prems have "groupId ` set gs \<subseteq> pid ` set ?ps1" by simp
  from Cons.IH [OF this] p show ?case by (simp add: Let_def)
qed

section \<open>Matching the oracle's words\<close>

lemma setScore_keys:
  "setScore js w x gs = Some gs' \<Longrightarrow> map groupId gs' = map groupId gs \<and> map gword gs' = map gword gs"
  by (induction gs arbitrary: gs') (auto split: option.splits if_splits)

lemma applyResults_keys:
  "applyResults js rs gs = Some gs' \<Longrightarrow> map groupId gs' = map groupId gs \<and> map gword gs' = map gword gs"
proof (induction rs arbitrary: gs)
  case Nil
  then show ?case by simp
next
  case (Cons e rs)
  obtain w x where e: "e = (w, x)" by (cases e) auto
  from Cons.prems e obtain gs1 where a: "setScore js w x gs = Some gs1" and b: "applyResults js rs gs1 = Some gs'"
    by (auto split: option.splits)
  from Cons.IH [OF b] setScore_keys [OF a] show ?case by simp
qed

lemma find_mapped: "find P (map f xs) = map_option f (find (\<lambda>x. P (f x)) xs)"
  by (induction xs) auto

lemma setScore_first:
  assumes "list_all (\<lambda>g. gword g \<noteq> None) gs"
  shows "setScore js w x gs =
           Some (case find (\<lambda>i. matches js w (gs ! i)) [0..<length gs] of
                   None \<Rightarrow> gs | Some i \<Rightarrow> gs[i := (gs ! i)\<lparr>gscore := x\<rparr>])"
  using assms
proof (induction gs)
  case Nil
  show ?case by simp
next
  case (Cons g gs)
  then obtain y where y: "gword g = Some y" by auto
  show ?case
  proof (cases "matches js w g")
    case True
    then have "find (\<lambda>i. matches js w ((g # gs) ! i)) [0..<length (g # gs)] = Some 0"
      by (simp add: upt_rec)
    with True y show ?thesis by (simp add: matches_def)
  next
    case False
    have f: "find (\<lambda>i. matches js w ((g # gs) ! i)) [0..<length (g # gs)]
             = map_option Suc (find (\<lambda>i. matches js w (gs ! i)) [0..<length gs])"
    proof -
      have "[0..<length (g # gs)] = 0 # map Suc [0..<length gs]"
        by (simp only: length_Cons upt_conv_Cons [OF zero_less_Suc] map_Suc_upt)
      then show ?thesis using False by (simp add: find_mapped)
    qed
    from Cons have ih: "setScore js w x gs =
           Some (case find (\<lambda>i. matches js w (gs ! i)) [0..<length gs] of
                   None \<Rightarrow> gs | Some i \<Rightarrow> gs[i := (gs ! i)\<lparr>gscore := x\<rparr>])" by simp
    from False y have "toLowerCase js y \<noteq> toLowerCase js w" by (simp add: matches_def)
    with y ih show ?thesis unfolding f by (auto split: option.splits)
  qed
qed


lemma applyResults_total:
  "list_all (\<lambda>g. gword g \<noteq> None) gs \<Longrightarrow> \<exists>sc. applyResults js rs gs = Some sc"
proof (induction rs arbitrary: gs)
  case Nil
  show ?case by simp
next
  case (Cons e rs)
  obtain w x where e: "e = (w, x)" by (cases e) auto
  from setScore_first [OF Cons.prems, of js w x] obtain gs1 where a: "setScore js w x gs = Some gs1"
    by blast
  from setScore_keys [OF a] Cons.prems have "list_all (\<lambda>g. gword g \<noteq> None) gs1"
    by (metis (mono_tags, lifting) list_all_iff list.set_map image_iff)
  from Cons.IH [OF this] a e show ?case by auto
qed












section \<open>The steps of the event loop\<close>

lemma startNextTurn_out:
  "\<exists>post. out (startNextTurn s) = out s @ post \<and> quietOut post"
  using startNextTurn_effect [of s]
  by (cases "turn (gameState s) \<ge> MAX_TURNS") (auto simp: quietOut_def)

lemma startNextTurn_advanced:
  "status (gameState s) = Playing \<Longrightarrow> turn (gameState s0) = turn (gameState s) \<Longrightarrow>
   advanced s0 (startNextTurn s)"
  using startNextTurn_effect [of s] by (auto simp: advanced_def)

lemma newOut_trans:
  "out s1 = out s @ xs \<Longrightarrow> out s2 = out s1 @ ys \<Longrightarrow> newOut s s2 = xs @ ys"
  by (simp add: newOut_def)

lemma evaluateRound_cases:
  assumes "\<not> isEvaluating (gameState s)" and "chain (gameState s) \<noteq> []"
    and "status (gameState s) = Playing" and "pending s = []"
  shows "players (evaluateRound s) = players s \<and> collectGuesses (players s) \<noteq> [] \<and>
           pending (evaluateRound s)
             = [\<lparr>target = word (last (chain (gameState s))), guesses = collectGuesses (players s)\<rparr>] \<and>
           (\<exists>g. isEvaluating g \<and> out (evaluateRound s) = out s @ [GameStateMsg g,
              OracleRequest (userPrompt (word (last (chain (gameState s)))) (collectGuesses (players s)))]) \<and>
           chain (gameState (evaluateRound s)) = chain (gameState s) \<and>
           turn (gameState (evaluateRound s)) = turn (gameState s) \<and>
           isEvaluating (gameState (evaluateRound s))
         \<or> collectGuesses (players s) = [] \<and> pending (evaluateRound s) = [] \<and>
           (\<exists>g post. isEvaluating g \<and> quietOut post \<and>
              out (evaluateRound s) = out s @ [GameStateMsg g, RoundResult NoGuesses] @ post) \<and>
           chain (gameState (evaluateRound s)) = chain (gameState s) \<and>
           advanced s (evaluateRound s)"
proof (cases "collectGuesses (players s) = []")
  case False
  with assms show ?thesis
    by (auto simp: evaluateRound_def Let_def emit_def split: list.splits)
next
  case True
  let ?g = "(gameState s)\<lparr>isEvaluating := True, isRoundActive := False\<rparr>"
  let ?s2 = "emit (RoundResult NoGuesses)
               (emit (GameStateMsg ?g) (s\<lparr>gameState := ?g, timerInterval := False\<rparr>))"
  have e: "evaluateRound s = startNextTurn ?s2"
    using True assms by (auto simp: evaluateRound_def Let_def emit_def split: list.splits)
  obtain post where post: "out (startNextTurn ?s2) = out ?s2 @ post" "quietOut post"
    using startNextTurn_out [of ?s2] by blast
  have "advanced s (startNextTurn ?s2)"
    using assms by (intro startNextTurn_advanced) (simp_all add: emit_def)
  moreover have "out (startNextTurn ?s2) = out s @ [GameStateMsg ?g, RoundResult NoGuesses] @ post"
    using post by (simp add: emit_def)
  moreover have "pending (startNextTurn ?s2) = []" "chain (gameState (startNextTurn ?s2)) = chain (gameState s)"
    using startNextTurn_effect [of ?s2] assms by (simp_all add: emit_def)
  ultimately show ?thesis using True post(2) unfolding e by auto
qed

lemma newOut_self: "newOut s s = []"
  by (simp add: newOut_def)

lemma oracleReturns_cases:
  assumes "pending s = [p]" and "status (gameState s) = Playing"
    and "scoreRound js (turn (gameState s)) reply r p (players s) = (ps, res)"
  shows "\<exists>post. newOut s (oracleReturns js reply r s)
               = RoundResult (case res of None \<Rightarrow> OracleError | Some (msg, n) \<Rightarrow> msg) # post \<and>
              quietOut post \<and> pending (oracleReturns js reply r s) = [] \<and>
              map pid (players (oracleReturns js reply r s)) = map pid ps \<and>
              map score (players (oracleReturns js reply r s)) = map score ps \<and>
              chain (gameState (oracleReturns js reply r s))
                = chain (gameState s) @ (case res of None \<Rightarrow> [] | Some (msg, n) \<Rightarrow> [n]) \<and>
              advanced s (oracleReturns js reply r s)"
proof -
  define m where "m = (case res of None \<Rightarrow> OracleError | Some (msg, n) \<Rightarrow> msg)"
  define c where "c = chain (gameState s) @ (case res of None \<Rightarrow> [] | Some (msg, n) \<Rightarrow> [n])"
  define s2 where "s2 = emit (RoundResult m)
     (s\<lparr>pending := [], players := ps, gameState := (gameState s)\<lparr>chain := c\<rparr>\<rparr>)"
  have e: "oracleReturns js reply r s = startNextTurn s2"
    using assms unfolding s2_def m_def c_def
    by (cases res) (auto simp: oracleReturns_def emit_def)
  obtain post where post: "out (startNextTurn s2) = out s2 @ post" "quietOut post"
    using startNextTurn_out [of s2] by blast
  have a: "advanced s (startNextTurn s2)"
    using assms(2) by (intro startNextTurn_advanced) (simp_all add: s2_def emit_def)
  have o: "newOut s (startNextTurn s2) = RoundResult m # post"
    using post(1) by (simp add: s2_def emit_def newOut_def)
  have "pending (startNextTurn s2) = []" "chain (gameState (startNextTurn s2)) = c"
    "map pid (players (startNextTurn s2)) = map pid ps"
    "map score (players (startNextTurn s2)) = map score ps"
    using startNextTurn_effect [of s2] by (simp_all add: s2_def emit_def)
  with a o post(2) show ?thesis
    unfolding e m_def [symmetric] c_def [symmetric] by blast
qed

lemma step_cases:
  assumes "wf s"
  shows "stepQuiet s (step js v e s) \<or> stepRequest s (step js v e s) \<or>
         stepSkip s (step js v e s) \<or> stepResult s (step js v e s)"
proof (cases e)
  case (Connection k nm)
  have "stepQuiet s (connection js v k nm s)"
    by (auto simp: stepQuiet_def quietOut_def connection_def emit_def Let_def newOut_def)
  with Connection show ?thesis by simp
next
  case (StartGame k r)
  have "stepQuiet s (startGame v k r s)"
    using assms
    by (cases v)
       (auto simp: stepQuiet_def quietOut_def startGame_def resetGame_def startTurnTimer_def
          emit_def Let_def newOut_def seedNode_def wf_def)
  with StartGame show ?thesis by (auto simp: stepQuiet_def quietOut_def newOut_self)
next
  case (Disconnect k)
  have "stepQuiet s (disconnect k s)"
    by (auto simp: stepQuiet_def quietOut_def disconnect_def emit_def Let_def newOut_def
        split: option.splits)
  with Disconnect show ?thesis by (auto simp: stepQuiet_def quietOut_def newOut_self)
next
  case (SubmitGuess k w)
  show ?thesis
  proof (cases "\<exists>p. lookup (players s) k = Some p \<and> isRoundActive (gameState s) \<and> \<not> submitted p")
    case False
    then have "step js v e s = s"
      using SubmitGuess by (auto simp: submitGuess_def connected_def split: option.splits)
    then show ?thesis by (simp add: stepQuiet_def quietOut_def newOut_self)
  next
    case True
    then obtain p where p: "lookup (players s) k = Some p" "isRoundActive (gameState s)"
      "\<not> submitted p" by blast
    define s1 where "s1 = emit (GameStateMsg (gameState s))
        (s\<lparr>players := modify k (\<lambda>q. q\<lparr>lastGuess := Some w, submitted := True\<rparr>) (players s)\<rparr>)"
    from assms p(2) have f: "\<not> isEvaluating (gameState s)" "status (gameState s) = Playing"
      "chain (gameState s) \<noteq> []" "pending s = []"
      by (auto simp: wf_def)
    have o1: "out s1 = out s @ [GameStateMsg (gameState s)]" by (simp add: s1_def emit_def)
    have q1: "quietOut [GameStateMsg (gameState s)]" using f(1) by (simp add: quietOut_def)
    have g1: "gameState s1 = gameState s" "pending s1 = []"
      using f by (simp_all add: s1_def emit_def)
    show ?thesis
    proof (cases "list_all submitted (players s1)")
      case False
      then have "step js v e s = s1"
        using SubmitGuess p by (simp add: submitGuess_def connected_def s1_def Let_def)
      moreover have "stepQuiet s s1"
        using q1 o1 g1 f by (simp add: stepQuiet_def newOut_def)
      ultimately show ?thesis by simp
    next
      case all: True
      then have e: "step js v e s = evaluateRound s1"
        using SubmitGuess p by (simp add: submitGuess_def connected_def s1_def Let_def)
      from evaluateRound_cases [of s1] f g1
      consider (req) g where "players (evaluateRound s1) = players s1" "collectGuesses (players s1) \<noteq> []"
          "pending (evaluateRound s1)
             = [\<lparr>target = word (last (chain (gameState s))), guesses = collectGuesses (players s1)\<rparr>]"
          "isEvaluating g" "out (evaluateRound s1) = out s1 @ [GameStateMsg g,
              OracleRequest (userPrompt (word (last (chain (gameState s)))) (collectGuesses (players s1)))]"
          "chain (gameState (evaluateRound s1)) = chain (gameState s)"
          "turn (gameState (evaluateRound s1)) = turn (gameState s)"
          "isEvaluating (gameState (evaluateRound s1))"
        | (skip) g post where "pending (evaluateRound s1) = []" "isEvaluating g" "quietOut post"
          "out (evaluateRound s1) = out s1 @ [GameStateMsg g, RoundResult NoGuesses] @ post"
          "chain (gameState (evaluateRound s1)) = chain (gameState s)"
          "advanced s1 (evaluateRound s1)"
        by auto
      then show ?thesis
      proof cases
        case req
        have "newOut s (evaluateRound s1) = [GameStateMsg (gameState s)] @ [GameStateMsg g,
              OracleRequest (userPrompt (word (last (chain (gameState s)))) (collectGuesses (players s1)))]"
          using o1 req(5) by (rule newOut_trans)
        with req q1 f have "stepRequest s (evaluateRound s1)"
          unfolding stepRequest_def by auto
        with e show ?thesis by simp
      next
        case skip
        have "newOut s (evaluateRound s1)
                = [GameStateMsg (gameState s)] @ [GameStateMsg g, RoundResult NoGuesses] @ post"
          using o1 skip(4) by (rule newOut_trans)
        moreover have "advanced s (evaluateRound s1)"
          using skip(6) g1 by (simp add: advanced_def)
        ultimately have "stepSkip s (evaluateRound s1)"
          using skip q1 f unfolding stepSkip_def by auto
        with e show ?thesis by simp
      qed
    qed
  qed
next
  case Tick
  show ?thesis
  proof (cases "timerInterval s")
    case False
    then have "step js v e s = s" using Tick by (simp add: tick_def)
    then show ?thesis by (simp add: stepQuiet_def quietOut_def newOut_self)
  next
    case True
    with assms obtain t where t: "timeLeft (gameState s) = Some (Suc t)"
      and ra: "isRoundActive (gameState s)"
      by (auto simp: wf_def)
    from assms ra have f: "\<not> isEvaluating (gameState s)" "status (gameState s) = Playing"
      "chain (gameState s) \<noteq> []" "pending s = []"
      by (auto simp: wf_def)
    define s1 where "s1 = (emit (Timer t) (s\<lparr>gameState := (gameState s)\<lparr>timeLeft := Some t\<rparr>\<rparr>))"
    have o1: "out s1 = out s @ [Timer t]" by (simp add: s1_def emit_def)
    have q1: "quietOut [Timer t]" by (simp add: quietOut_def)
    show ?thesis
    proof (cases t)
      case (Suc u)
      then have "step js v e s = s1"
        using Tick True t by (simp add: tick_def s1_def emit_def)
      moreover have "stepQuiet s s1"
        using q1 o1 by (simp add: stepQuiet_def newOut_def s1_def emit_def)
      ultimately show ?thesis by simp
    next
      case 0
      define s2 where "s2 = s1\<lparr>timerInterval := False\<rparr>"
      have e: "step js v e s = evaluateRound s2"
        using Tick True t 0 f by (simp add: tick_def s1_def s2_def emit_def)
      have o2: "out s2 = out s @ [Timer t]" using o1 by (simp add: s2_def)
      have g2: "\<not> isEvaluating (gameState s2)" "chain (gameState s2) \<noteq> []"
        "status (gameState s2) = Playing" "pending s2 = []"
        "chain (gameState s2) = chain (gameState s)" "turn (gameState s2) = turn (gameState s)"
        using f by (simp_all add: s2_def s1_def emit_def)
      from evaluateRound_cases [OF g2(1-4)]
      consider (req) g where "players (evaluateRound s2) = players s2" "collectGuesses (players s2) \<noteq> []"
          "pending (evaluateRound s2)
             = [\<lparr>target = word (last (chain (gameState s2))), guesses = collectGuesses (players s2)\<rparr>]"
          "isEvaluating g" "out (evaluateRound s2) = out s2 @ [GameStateMsg g,
              OracleRequest (userPrompt (word (last (chain (gameState s2)))) (collectGuesses (players s2)))]"
          "chain (gameState (evaluateRound s2)) = chain (gameState s2)"
          "turn (gameState (evaluateRound s2)) = turn (gameState s2)"
          "isEvaluating (gameState (evaluateRound s2))"
        | (skip) g post where "pending (evaluateRound s2) = []" "isEvaluating g" "quietOut post"
          "out (evaluateRound s2) = out s2 @ [GameStateMsg g, RoundResult NoGuesses] @ post"
          "chain (gameState (evaluateRound s2)) = chain (gameState s2)"
          "advanced s2 (evaluateRound s2)"
        by auto
      then show ?thesis
      proof cases
        case req
        have "newOut s (evaluateRound s2) = [Timer t] @ [GameStateMsg g,
              OracleRequest (userPrompt (word (last (chain (gameState s2)))) (collectGuesses (players s2)))]"
          using o2 req(5) by (rule newOut_trans)
        with req q1 f g2 have "stepRequest s (evaluateRound s2)"
          unfolding stepRequest_def by auto
        with e show ?thesis by simp
      next
        case skip
        have "newOut s (evaluateRound s2)
                = [Timer t] @ [GameStateMsg g, RoundResult NoGuesses] @ post"
          using o2 skip(4) by (rule newOut_trans)
        moreover have "advanced s (evaluateRound s2)"
          using skip(6) g2 by (simp add: advanced_def)
        ultimately have "stepSkip s (evaluateRound s2)"
          using skip q1 f g2 unfolding stepSkip_def by auto
        with e show ?thesis by simp
      qed
    qed
  qed
next
  case (OracleReturns reply r)
  show ?thesis
  proof (cases "pending s")
    case Nil
    then have "step js v e s = s" using OracleReturns by (simp add: oracleReturns_def)
    then show ?thesis by (simp add: stepQuiet_def quietOut_def newOut_self)
  next
    case (Cons p rest)
    with assms have pe: "pending s = [p]" and pl: "status (gameState s) = Playing"
      by (auto simp: wf_def)
    obtain ps res where sr: "scoreRound js (turn (gameState s)) reply r p (players s) = (ps, res)"
      by (cases "scoreRound js (turn (gameState s)) reply r p (players s)") auto
    from oracleReturns_cases [OF pe pl sr] obtain post where
      c: "newOut s (oracleReturns js reply r s)
               = RoundResult (case res of None \<Rightarrow> OracleError | Some (msg, n) \<Rightarrow> msg) # post"
        "quietOut post" "pending (oracleReturns js reply r s) = []"
        "chain (gameState (oracleReturns js reply r s))
                = chain (gameState s) @ (case res of None \<Rightarrow> [] | Some (msg, n) \<Rightarrow> [n])"
        "advanced s (oracleReturns js reply r s)"
      by blast
    have "stepResult s (oracleReturns js reply r s)"
    proof (cases res)
      case None
      with c pe show ?thesis unfolding stepResult_def by auto
    next
      case (Some mn)
      obtain msg n where mn: "mn = (msg, n)" by (cases mn) auto
      from scoreRound_SomeD [OF sr [unfolded Some mn]] obtain w nm ls
        where "msg = Summary (turn (gameState s)) w nm ls n" by blast
      with c pe Some mn show ?thesis unfolding stepResult_def by auto
    qed
    with OracleReturns show ?thesis by simp
  qed
qed


lemma guard_stays_closed:
  assumes "wf s" and "isEvaluating (gameState s)"
  shows "gameState (step js v e s) = gameState s \<or> pending s \<noteq> [] \<and> advanced s (step js v e s) \<or>
         status (gameState s) \<noteq> Playing \<and> isStartGame e"
proof -
  from assms have f: "\<not> isRoundActive (gameState s)" "\<not> timerInterval s"
    by (auto simp: wf_def)
  show ?thesis
  proof (cases e)
    case (OracleReturns reply r)
    show ?thesis
    proof (cases "pending s")
      case Nil
      with OracleReturns show ?thesis by (simp add: oracleReturns_def)
    next
      case (Cons p rest)
      with assms have pe: "pending s = [p]" and pl: "status (gameState s) = Playing"
        by (auto simp: wf_def)
      obtain ps res where sr: "scoreRound js (turn (gameState s)) reply r p (players s) = (ps, res)"
        by (cases "scoreRound js (turn (gameState s)) reply r p (players s)") auto
      from oracleReturns_cases [OF pe pl sr] OracleReturns pe show ?thesis by auto
    qed
  next
    case (StartGame k r)
    then show ?thesis
      by (cases v) (auto simp: startGame_def)
  qed (use f in \<open>auto simp: connection_def submitGuess_def disconnect_def tick_def emit_def Let_def
         split: option.splits\<close>)
qed

lemma quietOut_filters:
  assumes "quietOut xs"
  shows "filter passesGuard xs = [] \<and> filter isRoundResult xs = [] \<and>
     filter isOracleRequest xs = [] \<and> filter isSummary xs = []"
proof -
  have "isSummary x \<Longrightarrow> isRoundResult x" for x by (cases x rule: isSummary.cases) auto
  with assms show ?thesis
    by (auto simp: quietOut_def list_ex_iff filter_empty_conv)
qed

lemma step_counts:
  assumes "wf s"
  shows "length (filter passesGuard (newOut s (step js v e s))) \<le> 1 \<and>
         length (filter isRoundResult (newOut s (step js v e s))) \<le> 1 \<and>
         (list_ex passesGuard (newOut s (step js v e s)) \<longrightarrow>
            \<not> isEvaluating (gameState s) \<and> pending s = []) \<and>
         (list_ex isRoundResult (newOut s (step js v e s)) \<longrightarrow>
            advanced s (step js v e s) \<and> pending (step js v e s) = []) \<and>
         (chain (gameState (step js v e s)) = chain (gameState s) \<or>
          status (gameState s) \<noteq> Playing \<and> (\<exists>r. chain (gameState (step js v e s)) = [seedNode r]) \<or>
          (\<exists>t w nm ls n. chain (gameState (step js v e s)) = chain (gameState s) @ [n] \<and>
             filter isRoundResult (newOut s (step js v e s)) = [RoundResult (Summary t w nm ls n)]))"
proof -
  define s' where "s' = step js v e s"
  from step_cases [OF assms, of js v e]
  consider (quiet) "stepQuiet s s'" | (request) "stepRequest s s'" | (skip) "stepSkip s s'"
    | (result) "stepResult s s'"
    unfolding s'_def by blast
  then have "length (filter passesGuard (newOut s s')) \<le> 1 \<and>
         length (filter isRoundResult (newOut s s')) \<le> 1 \<and>
         (list_ex passesGuard (newOut s s') \<longrightarrow> \<not> isEvaluating (gameState s) \<and> pending s = []) \<and>
         (list_ex isRoundResult (newOut s s') \<longrightarrow> advanced s s' \<and> pending s' = []) \<and>
         (chain (gameState s') = chain (gameState s) \<or>
          status (gameState s) \<noteq> Playing \<and> (\<exists>r. chain (gameState s') = [seedNode r]) \<or>
          (\<exists>t w nm ls n. chain (gameState s') = chain (gameState s) @ [n] \<and>
             filter isRoundResult (newOut s s') = [RoundResult (Summary t w nm ls n)]))"
  proof cases
    case quiet
    then show ?thesis
      using quietOut_filters [of "newOut s s'"]
      by (auto simp: stepQuiet_def quietOut_def)
  next
    case request
    then obtain pre g x where "quietOut pre" "newOut s s' = pre @ [GameStateMsg g, OracleRequest x]"
      "isEvaluating g" "chain (gameState s') = chain (gameState s)"
      "\<not> isEvaluating (gameState s)" "pending s = []"
      unfolding stepRequest_def by blast
    then show ?thesis
      using quietOut_filters [of pre] by (auto simp: quietOut_def)
  next
    case skip
    then obtain pre g post where "quietOut pre" "quietOut post"
      "newOut s s' = pre @ [GameStateMsg g, RoundResult NoGuesses] @ post"
      "isEvaluating g" "chain (gameState s') = chain (gameState s)"
      "\<not> isEvaluating (gameState s)" "pending s = []" "pending s' = []" "advanced s s'"
      unfolding stepSkip_def by blast
    then show ?thesis
      using quietOut_filters [of pre] quietOut_filters [of post] by (auto simp: quietOut_def)
  next
    case result
    then obtain m post where r: "quietOut post" "newOut s s' = RoundResult m # post"
      "case m of Summary t w nm ls n \<Rightarrow> chain (gameState s') = chain (gameState s) @ [n]
         | _ \<Rightarrow> chain (gameState s') = chain (gameState s)"
      "pending s' = []" "advanced s s'"
      unfolding stepResult_def by blast
    then show ?thesis
      using quietOut_filters [of post] by (cases m) (auto simp: quietOut_def)
  qed
  then show ?thesis unfolding s'_def .
qed

lemma summary_in_newOut:
  assumes "wf s" and "pending s = [p]"
    and "RoundResult (Summary t w nm ls n) \<in> set (newOut s (oracleReturns js reply r s))"
  shows "\<exists>rs sc rest wp ps.
           reply = OracleResults rs \<and> applyResults js rs (guesses p) = Some sc \<and>
           sortGuesses sc = w # rest \<and> lookup (players s) (groupId w) = Some wp \<and>
           award (groupId w) (w # rest) (players s) [] = (ps, Some ls) \<and>
           map pid (players (oracleReturns js reply r s)) = map pid ps \<and>
           map score (players (oracleReturns js reply r s)) = map score ps"
proof -
  from assms(1,2) have pl: "status (gameState s) = Playing" by (auto simp: wf_def)
  obtain ps res where sr: "scoreRound js (turn (gameState s)) reply r p (players s) = (ps, res)"
    by (cases "scoreRound js (turn (gameState s)) reply r p (players s)") auto
  from oracleReturns_cases [OF assms(2) pl sr] obtain post where
    c: "newOut s (oracleReturns js reply r s)
               = RoundResult (case res of None \<Rightarrow> OracleError | Some (msg, n) \<Rightarrow> msg) # post"
      "quietOut post"
      "map pid (players (oracleReturns js reply r s)) = map pid ps"
      "map score (players (oracleReturns js reply r s)) = map score ps"
    by blast
  have "RoundResult (Summary t w nm ls n) \<notin> set post"
    using c(2) by (auto simp: quietOut_def list_ex_iff)
  with assms(3) c(1)
  have m: "(case res of None \<Rightarrow> OracleError | Some (msg, n) \<Rightarrow> msg) = Summary t w nm ls n"
    by auto
  then obtain n' where res: "res = Some (Summary t w nm ls n, n')"
    by (cases res) auto
  from scoreRound_SomeD [OF sr [unfolded res]] c(3,4) show ?thesis by auto
qed

lemma summary_appends:
  assumes "wf s" and "RoundResult (Summary t w nm ls n) \<in> set (newOut s (step js v e s))"
  shows "chain (gameState (step js v e s)) = chain (gameState s) @ [n]"
proof -
  define s' where "s' = step js v e s"
  note su = assms(2) [folded s'_def]
  have nq: "quietOut xs \<Longrightarrow> RoundResult (Summary t w nm ls n) \<notin> set xs" for xs
    by (auto simp: quietOut_def list_ex_iff)
  from step_cases [OF assms(1), of js v e]
  consider (quiet) "stepQuiet s s'" | (request) "stepRequest s s'" | (skip) "stepSkip s s'"
    | (result) "stepResult s s'"
    unfolding s'_def by blast
  then have "chain (gameState s') = chain (gameState s) @ [n]"
  proof cases
    case quiet
    with su nq show ?thesis by (auto simp: stepQuiet_def)
  next
    case request
    then obtain pre g x where "quietOut pre" "newOut s s' = pre @ [GameStateMsg g, OracleRequest x]"
      unfolding stepRequest_def by blast
    with su nq [of pre] show ?thesis by auto
  next
    case skip
    then obtain pre g post where "quietOut pre" "quietOut post"
      "newOut s s' = pre @ [GameStateMsg g, RoundResult NoGuesses] @ post"
      unfolding stepSkip_def by blast
    with su nq [of pre] nq [of post] show ?thesis by auto
  next
    case result
    then obtain m post where r: "quietOut post" "newOut s s' = RoundResult m # post"
      "case m of Summary t w nm ls n \<Rightarrow> chain (gameState s') = chain (gameState s) @ [n]
         | _ \<Rightarrow> chain (gameState s') = chain (gameState s)"
      unfolding stepResult_def by blast
    with su nq [of post] have "m = Summary t w nm ls n" by auto
    with r(3) show ?thesis by simp
  qed
  then show ?thesis unfolding s'_def .
qed

section \<open>Single flight of the evaluation\<close>

text \<open>
  Claim C1, as the code has it. In every reachable state at most one evaluation is under
  way, and in the log the guard passes and the round results alternate, beginning with a
  pass: each invocation that passes the guard is followed by exactly one round result
  before the guard can be passed again. An invocation that finds \<^verbatim>\<open>isEvaluating\<close> set
  returns the state as it is, and the flag stays set until the turn is advanced by the
  pending evaluation (or a finished game is restarted). One step of the event loop passes
  the guard at most once, and only when no evaluation is under way; it sends at most one
  round result, and with it the turn advances; it leaves the chain as it is, or resets
  it on an accepted start, or appends one node together with the round summary; and
  whenever it broadcasts a round summary it appends the node of that summary. So a turn
  has exactly one round result and at most one append: exactly one when the round summary
  is broadcast, none when nobody submitted or the oracle call threw.
\<close>

theorem single_flight:
  "let s = run js v evs init; s' = step js v e s
   in length (pending s) \<le> 1 \<and>
      flight 0 (out s) = Some (length (pending s)) \<and>
      (isEvaluating (gameState s) \<longrightarrow>
         evaluateRound s = s \<and>
         (gameState s' = gameState s \<or> pending s \<noteq> [] \<and> advanced s s' \<or>
          status (gameState s) \<noteq> Playing \<and> isStartGame e)) \<and>
      length (filter passesGuard (newOut s s')) \<le> 1 \<and>
      length (filter isRoundResult (newOut s s')) \<le> 1 \<and>
      (list_ex passesGuard (newOut s s') \<longrightarrow> \<not> isEvaluating (gameState s) \<and> pending s = []) \<and>
      (list_ex isRoundResult (newOut s s') \<longrightarrow> advanced s s' \<and> pending s' = []) \<and>
      (\<forall>t w nm ls n.
         RoundResult (Summary t w nm ls n) \<in> set (newOut s s') \<longrightarrow>
         chain (gameState s') = chain (gameState s) @ [n]) \<and>
      (chain (gameState s') = chain (gameState s) \<or>
       status (gameState s) \<noteq> Playing \<and> (\<exists>r. chain (gameState s') = [seedNode r]) \<or>
       (\<exists>t w nm ls n. chain (gameState s') = chain (gameState s) @ [n] \<and>
          filter isRoundResult (newOut s s') = [RoundResult (Summary t w nm ls n)]))"
proof -
  define s where "s = run js v evs init"
  have w: "wf s" unfolding s_def by (rule wf_reachable)
  have a: "length (pending s) \<le> 1" "flight 0 (out s) = Some (length (pending s))"
    using w by (simp_all add: wf_def)
  have b: "isEvaluating (gameState s) \<Longrightarrow> evaluateRound s = s"
    by (simp add: evaluateRound_def)
  note c = guard_stays_closed [OF w, of js v e]
  note d = step_counts [OF w, of js v e]
  have f: "\<forall>t w nm ls n.
         RoundResult (Summary t w nm ls n) \<in> set (newOut s (step js v e s)) \<longrightarrow>
         chain (gameState (step js v e s)) = chain (gameState s) @ [n]"
    using summary_appends [OF w] by blast
  from a b c d f show ?thesis
    unfolding s_def [symmetric] Let_def by blast
qed

theorem single_flight_witness:
  "(isEvaluating (gameState (run ascii Part_000 bothSubmitted init)) \<and>
    list_ex isRoundResult (newOut (run ascii Part_000 bothSubmitted init)
       (step ascii Part_000 (OracleReturns replyAB 1) (run ascii Part_000 bothSubmitted init)))) \<and>
   evaluateRound (run ascii Part_000 bothSubmitted init) = run ascii Part_000 bothSubmitted init \<and>
   advanced (run ascii Part_000 bothSubmitted init)
     (step ascii Part_000 (OracleReturns replyAB 1) (run ascii Part_000 bothSubmitted init)) \<and>
   flight 0 (out (run ascii Part_000 bothSubmitted init))
     = Some (length (pending (run ascii Part_000 bothSubmitted init))) \<and>
   list_ex passesGuard (newOut (run ascii Part_000 oneSubmitted init)
       (step ascii Part_000 (SubmitGuess ''s2'' ''Carro'') (run ascii Part_000 oneSubmitted init))) \<and>
   pending (run ascii Part_000 oneSubmitted init) = [] \<and>
   RoundResult (Summary 1 guessAna ''Ana'' [(''Ana'', guessAna, 7), (''Bia'', guessBia, 0)]
       \<lparr>word = Some ''Carro'', playerId = Some ''s2''\<rparr>)
     \<in> set (newOut (run ascii Part_000 bothSubmitted init)
           (step ascii Part_000 (OracleReturns replyAB 1) (run ascii Part_000 bothSubmitted init))) \<and>
   chain (gameState (step ascii Part_000 (OracleReturns replyAB 1) (run ascii Part_000 bothSubmitted init)))
     = chain (gameState (run ascii Part_000 bothSubmitted init))
         @ [\<lparr>word = Some ''Carro'', playerId = Some ''s2''\<rparr>] \<and>
   length (chain (gameState (step ascii Part_000 (OracleReturns replyAB 1)
       (run ascii Part_000 bothSubmitted init)))) = 2"
proof -
  have h: "RoundResult (Summary 1 guessAna ''Ana'' [(''Ana'', guessAna, 7), (''Bia'', guessBia, 0)]
       \<lparr>word = Some ''Carro'', playerId = Some ''s2''\<rparr>)
     \<in> set (newOut (run ascii Part_000 bothSubmitted init)
           (step ascii Part_000 (OracleReturns replyAB 1) (run ascii Part_000 bothSubmitted init)))"
    by code_simp
  have l: "length (chain (gameState (step ascii Part_000 (OracleReturns replyAB 1)
       (run ascii Part_000 bothSubmitted init)))) = 2"
    by code_simp
  have a: "isEvaluating (gameState (run ascii Part_000 bothSubmitted init)) \<and>
    list_ex isRoundResult (newOut (run ascii Part_000 bothSubmitted init)
       (step ascii Part_000 (OracleReturns replyAB 1) (run ascii Part_000 bothSubmitted init)))"
    by code_simp
  have b: "list_ex passesGuard (newOut (run ascii Part_000 oneSubmitted init)
       (step ascii Part_000 (SubmitGuess ''s2'' ''Carro'') (run ascii Part_000 oneSubmitted init)))"
    by code_simp
  show ?thesis
    using a b h l single_flight [of ascii Part_000 bothSubmitted "OracleReturns replyAB 1"]
      single_flight [of ascii Part_000 oneSubmitted "SubmitGuess ''s2'' ''Carro''"]
    unfolding Let_def by blast
qed

text \<open>
  Claim C1 as stated fails: in a turn where nobody submits, the timer runs out, the one
  invocation passes the guard and sends the one round result, but no node is appended to
  the chain.
\<close>

theorem no_submission_no_append_counterexample:
  "length (filter passesGuard (out (run ascii Part_000 idle30 init))) = 1 \<and>
   filter isRoundResult (out (run ascii Part_000 idle30 init)) = [RoundResult NoGuesses] \<and>
   chain (gameState (run ascii Part_000 idle30 init)) = [seedNode 0] \<and>
   turn (gameState (run ascii Part_000 idle30 init)) = 2"
  by code_simp

section \<open>Points of a round\<close>

text \<open>
  Whenever the pending evaluation of a reachable state resumes and broadcasts a round
  summary, the roster keeps its players and each player's score grows by 2 if the player
  has a guess in the snapshot whose oracle score is at least 57, plus 5 if the player is
  the winner, the first of the sorted guesses; a player with no guess in the snapshot
  keeps the score.
\<close>

lemma summary_round_points:
  "let s = run js v evs init; s' = step js v (OracleReturns reply r) s
   in \<forall>p t w nm ls n.
        pending s = [p] \<and> RoundResult (Summary t w nm ls n) \<in> set (newOut s s') \<longrightarrow>
        (\<exists>rs sc. reply = OracleResults rs \<and> applyResults js rs (guesses p) = Some sc \<and>
           w = hd (sortGuesses sc) \<and>
           map pid (players s') = map pid (players s) \<and>
           map score (players s') =
             map (\<lambda>q. score q +
                    (case find (\<lambda>g. groupId g = pid q) (sortGuesses sc) of
                       None \<Rightarrow> 0
                     | Some g \<Rightarrow>
                         (if (case gscore g of None \<Rightarrow> False | Some x \<Rightarrow> 57 \<le> x) then 2 else 0) +
                         (if groupId g = groupId w then 5 else 0)))
                 (players s))"
proof -
  define s where "s = run js v evs init"
  have w: "wf s" unfolding s_def by (rule wf_reachable)
  have "\<exists>rs sc. reply = OracleResults rs \<and> applyResults js rs (guesses p) = Some sc \<and>
           w = hd (sortGuesses sc) \<and>
           map pid (players (oracleReturns js reply r s)) = map pid (players s) \<and>
           map score (players (oracleReturns js reply r s)) =
             map (\<lambda>q. score q +
                    (case find (\<lambda>g. groupId g = pid q) (sortGuesses sc) of
                       None \<Rightarrow> 0
                     | Some g \<Rightarrow>
                         (if (case gscore g of None \<Rightarrow> False | Some x \<Rightarrow> 57 \<le> x) then 2 else 0) +
                         (if groupId g = groupId w then 5 else 0)))
                 (players s)"
    if pe: "pending s = [p]"
      and su: "RoundResult (Summary t w nm ls n) \<in> set (newOut s (oracleReturns js reply r s))"
    for p t w nm ls n
  proof -
    from summary_in_newOut [OF w pe su] obtain rs sc rest wp ps where
      a: "reply = OracleResults rs" "applyResults js rs (guesses p) = Some sc"
        "sortGuesses sc = w # rest" "award (groupId w) (w # rest) (players s) [] = (ps, Some ls)"
        "map pid (players (oracleReturns js reply r s)) = map pid ps"
        "map score (players (oracleReturns js reply r s)) = map score ps"
      by blast
    have d1: "distinct (map pid (players s))" using w by (simp add: wf_def)
    have "distinct (map groupId (guesses p))" using w pe by (simp add: wf_def)
    then have "distinct (map groupId sc)" using applyResults_keys [OF a(2)] by simp
    then have d2: "distinct (map groupId (w # rest))"
      using distinct_sortGuesses [of sc] a(3) by simp
    from award_map [OF d1 d2 a(4)]
    have ps: "ps = map (\<lambda>q. q\<lparr>score := score q + gain (groupId w) (w # rest) (pid q)\<rparr>) (players s)"
      by simp
    have "map pid ps = map pid (players s)" unfolding ps by (simp add: comp_def)
    moreover have "map score ps = map (\<lambda>q. score q + gain (groupId w) (w # rest) (pid q)) (players s)"
      unfolding ps by (simp add: comp_def)
    moreover have "gain (groupId w) (w # rest) k =
        (case find (\<lambda>g. groupId g = k) (sortGuesses sc) of
           None \<Rightarrow> 0
         | Some g \<Rightarrow> (if (case gscore g of None \<Rightarrow> False | Some x \<Rightarrow> 57 \<le> x) then 2 else 0) +
                     (if groupId g = groupId w then 5 else 0))" for k
      unfolding a(3) gain_def pointsToAdd_def reaches57_def by (simp split: option.splits)
    ultimately show ?thesis using a by (intro exI [of _ rs] exI [of _ sc]) simp
  qed
  then show ?thesis
    unfolding s_def [symmetric] Let_def by (simp del: split_paired_All split_paired_Ex) blast
qed

lemma summary_round_points_example:
  "(pending (run ascii Part_000 bothSubmitted init) = [snapshotAB] \<and>
    RoundResult (Summary 1 guessAna ''Ana'' [(''Ana'', guessAna, 7), (''Bia'', guessBia, 0)]
        \<lparr>word = Some ''Carro'', playerId = Some ''s2''\<rparr>)
      \<in> set (newOut (run ascii Part_000 bothSubmitted init)
            (step ascii Part_000 (OracleReturns replyAB 1) (run ascii Part_000 bothSubmitted init)))) \<and>
   (\<exists>rs sc. replyAB = OracleResults rs \<and> applyResults ascii rs (guesses snapshotAB) = Some sc \<and>
      guessAna = hd (sortGuesses sc) \<and>
      map score (players (step ascii Part_000 (OracleReturns replyAB 1) (run ascii Part_000 bothSubmitted init))) =
        map (\<lambda>q. score q +
               (case find (\<lambda>g. groupId g = pid q) (sortGuesses sc) of
                  None \<Rightarrow> 0
                | Some g \<Rightarrow>
                    (if (case gscore g of None \<Rightarrow> False | Some x \<Rightarrow> 57 \<le> x) then 2 else 0) +
                    (if groupId g = groupId guessAna then 5 else 0)))
            (players (run ascii Part_000 bothSubmitted init))) \<and>
   map score (players (step ascii Part_000 (OracleReturns replyAB 1) (run ascii Part_000 bothSubmitted init)))
     = [7, 0]"
proof -
  have h: "pending (run ascii Part_000 bothSubmitted init) = [snapshotAB] \<and>
    RoundResult (Summary 1 guessAna ''Ana'' [(''Ana'', guessAna, 7), (''Bia'', guessBia, 0)]
        \<lparr>word = Some ''Carro'', playerId = Some ''s2''\<rparr>)
      \<in> set (newOut (run ascii Part_000 bothSubmitted init)
            (step ascii Part_000 (OracleReturns replyAB 1) (run ascii Part_000 bothSubmitted init)))"
    by code_simp
  have c: "map score (players (step ascii Part_000 (OracleReturns replyAB 1) (run ascii Part_000 bothSubmitted init)))
     = [7, 0]"
    by code_simp
  show ?thesis
    using h c summary_round_points [of ascii Part_000 bothSubmitted replyAB 1]
    unfolding Let_def by blast
qed

text \<open>
  Claim C6 fails on the code. Two players submit; the oracle call is under way when the
  first, whose word will score best, leaves; the oracle answers 80 for the departed
  player's word and 60 for the word of the player who stayed. The read of the departed
  winner's name throws before any score is added: the error notice is broadcast and the
  player who stayed, with an oracle score of 60, at least 57, keeps a score of 0 instead
  of gaining 2. So it is in \<^verbatim>\<open>part_000\<close> and, with the first player as host, in
  \<^verbatim>\<open>index.js\<close>.
\<close>

theorem points_lost_after_disconnect:
  "applyResults ascii [(''Passado'', Some 80), (''Carro'', Some 60)] (guesses snapshotAB)
     = Some [\<lparr>groupId = ''s1'', gword = Some ''Passado'', gscore = Some 80\<rparr>,
             \<lparr>groupId = ''s2'', gword = Some ''Carro'', gscore = Some 60\<rparr>] \<and>
   pending (run ascii Part_000 (butlast (butlast (winnerLeaves ''Ana''))) init) = [snapshotAB] \<and>
   map pid (players (run ascii Part_000 (butlast (winnerLeaves ''Ana'')) init)) = [''s2''] \<and>
   map score (players (run ascii Part_000 (butlast (winnerLeaves ''Ana'')) init)) = [0] \<and>
   map pid (players (run ascii Part_000 (winnerLeaves ''Ana'') init)) = [''s2''] \<and>
   map score (players (run ascii Part_000 (winnerLeaves ''Ana'') init)) = [0] \<and>
   filter isRoundResult (out (run ascii Part_000 (winnerLeaves ''Ana'') init))
     = [RoundResult OracleError] \<and>
   hostId (run ascii Index_js (butlast (butlast (winnerLeaves ''Lider''))) init) = Some ''s1'' \<and>
   pending (run ascii Index_js (butlast (butlast (winnerLeaves ''Lider''))) init) = [snapshotAB] \<and>
   map pid (players (run ascii Index_js (winnerLeaves ''Lider'') init)) = [''s2''] \<and>
   map score (players (run ascii Index_js (winnerLeaves ''Lider'') init)) = [0] \<and>
   filter isRoundResult (out (run ascii Index_js (winnerLeaves ''Lider'') init))
     = [RoundResult OracleError]"
  by code_simp

section \<open>The winner of a round\<close>




section \<open>The request to the oracle and its answer\<close>




section \<open>Length of the chain\<close>

text \<open>
  When every player of the snapshot is still in the roster, a parsed answer of the oracle
  appends one node to the chain, taken from one of the guesses.
\<close>

lemma chain_extended_when_submitters_present:
  assumes "pending (run js v evs init) = [p]"
    and "groupId ` set (guesses p) \<subseteq> pid ` set (players (run js v evs init))"
  shows "\<exists>n. chain (gameState (step js v (OracleReturns (OracleResults rs) r) (run js v evs init)))
               = chain (gameState (run js v evs init)) @ [n] \<and>
             playerId n \<in> Some ` groupId ` set (guesses p)"
proof -
  define s where "s = run js v evs init"
  have w: "wf s" unfolding s_def by (rule wf_reachable)
  note pe = assms(1) [folded s_def] and sub = assms(2) [folded s_def]
  from w pe have pl: "status (gameState s) = Playing" and ne: "guesses p \<noteq> []"
    and g: "\<forall>x \<in> set (guesses p). gword x \<noteq> None \<and> gscore x = None"
    by (auto simp: wf_def)
  from g have "list_all (\<lambda>g. gword g \<noteq> None) (guesses p)" by (simp add: list_all_iff)
  from applyResults_total [OF this, of js rs] obtain sc where sc: "applyResults js rs (guesses p) = Some sc"
    by blast
  have k: "map groupId sc = map groupId (guesses p)" using applyResults_keys [OF sc] by simp
  then have "sc \<noteq> []" using ne by auto
  then obtain wn rest where so: "sortGuesses sc = wn # rest"
    using sortGuesses_Nil [of sc] by (cases "sortGuesses sc") auto
  have ids: "groupId ` set (wn # rest) = groupId ` set (guesses p)"
    using set_sortGuesses [of sc] so k by (metis list.set_map)
  with sub have sub': "groupId ` set (wn # rest) \<subseteq> pid ` set (players s)" by simp
  then have "groupId wn \<in> pid ` set (players s)" by simp
  then obtain wp where wp: "lookup (players s) (groupId wn) = Some wp"
    using lookup_None [of "players s" "groupId wn"] by (cases "lookup (players s) (groupId wn)") auto
  from award_total [OF sub', of "groupId wn" "[]"] obtain ps ls
    where aw: "award (groupId wn) (wn # rest) (players s) [] = (ps, Some ls)" by blast
  define nx where "nx = (wn # rest) ! (r mod length (wn # rest))"
  define n where "n = \<lparr>word = gword nx, playerId = Some (groupId nx)\<rparr>"
  have sr: "scoreRound js (turn (gameState s)) (OracleResults rs) r p (players s)
          = (ps, Some (Summary (turn (gameState s)) wn (name wp) ls n, n))"
    using sc so wp aw unfolding scoreRound_def n_def nx_def
    by (simp del: award.simps add: Let_def)
  have "nx \<in> set (wn # rest)" unfolding nx_def by (intro nth_mem) simp
  then have "groupId nx \<in> groupId ` set (guesses p)" using ids by blast
  then have "playerId n \<in> Some ` groupId ` set (guesses p)" by (simp add: n_def)
  with oracleReturns_cases [OF pe pl sr] show ?thesis
    unfolding s_def [symmetric] by auto
qed

text \<open>
  Claim C8 fails on the code. Two players submit; the one whose word wins leaves while the
  oracle is asked; the oracle answers with scores for both words. The read of the departed
  winner's name throws, the error notice is broadcast and the first turn ends with the
  seed alone in the chain: its length is 1, not 2.
\<close>

theorem chain_not_extended_after_disconnect:
  "chain (gameState (run ascii Part_000 leftDuringCall init)) = [seedNode 0] \<and>
   turn (gameState (run ascii Part_000 leftDuringCall init)) = 2 \<and>
   filter isRoundResult (out (run ascii Part_000 leftDuringCall init)) = [RoundResult OracleError] \<and>
   map pid (players (run ascii Part_000 leftDuringCall init)) = [''s2''] \<and>
   map score (players (run ascii Part_000 leftDuringCall init)) = [0]"
  by code_simp

text \<open>The same run in \<^verbatim>\<open>index.js\<close>, the departed winner being the host.\<close>

lemma chain_not_extended_index_js:
  "chain (gameState (run ascii Index_js (winnerLeaves ''Lider'') init)) = [seedNode 0] \<and>
   turn (gameState (run ascii Index_js (winnerLeaves ''Lider'') init)) = 2"
  by code_simp

end
